theory Spec2Isabelle
  imports Complex_Main "HOL-Library.AList" "HOL-Library.Multiset"
    "HOL-Library.List_Lexorder" "HOL-Library.Char_ord"
begin

section \<open>Trade analytics of the trading dashboard (PerformanceChart.tsx)\<close>

text \<open>
  The four derived views of the component \<^verbatim>\<open>PerformanceChart\<close> are embedded as HOL
  functions: \<^verbatim>\<open>equityCurve\<close>, \<^verbatim>\<open>symbolPerformance\<close>, \<^verbatim>\<open>dailyPnL\<close> and
  \<^verbatim>\<open>roeDistribution\<close>, which the specification calls computeEquityCurve,
  computeSymbolPerformance, computeDailyPnL and computeDistribution.

  Conventions of the embedding.
  \<^item> A JavaScript \<^verbatim>\<open>number\<close> is a \<^typ>\<open>real\<close>: arithmetic is exact, there is no
    rounding, no infinity and no NaN among the trade's numeric fields, where the code
    computes in double precision. The properties of increments and balances are
    therefore stated with the expressions that the code evaluates, and an inequality
    between balances is stated only where rounding keeps it; the sample values are
    chosen so that the doubles of the code and the reals of the model agree on them.
    A count (\<^verbatim>\<open>wins++\<close>, \<^verbatim>\<open>.length\<close>) is a \<^typ>\<open>nat\<close>.
  \<^item> An optional field (\<^verbatim>\<open>exit_timestamp?: string\<close>) is an \<^typ>\<open>'a option\<close>, where
    \<^term>\<open>None\<close> is \<^verbatim>\<open>undefined\<close>; \<^verbatim>\<open>performance: PerformanceMetrics | null\<close> likewise.
  \<^item> \<^verbatim>\<open>trade_status\<close> is kept as the string the code compares it with
    (\<^verbatim>\<open>!== 'OPEN'\<close>, \<^verbatim>\<open>=== 'CLOSED_WIN'\<close>): the records come from JSON and nothing
    checks the declared three-valued type at run time.
  \<^item> The built-in \<^verbatim>\<open>Date\<close> is not part of the repository and is a parameter:
    \<open>getTime s\<close> stands for \<^verbatim>\<open>new Date(s).getTime()\<close>, with \<^term>\<open>None\<close> for NaN (an
    unparsable string), and \<open>dayOf ms\<close> for the result of \<^verbatim>\<open>toDateString()\<close> on a
    valid date (the calendar day in the local time zone).
\<close>

subsection \<open>Data model (services/api)\<close>

datatype side = LONG | SHORT

record TradeEntry =
  trade_id :: string
  timestamp :: string
  symbol :: string
  side :: side
  entry_price :: real
  quantity :: real
  leverage :: real
  risk_pct :: real
  reward_pct :: real
  stop_loss :: real
  take_profit :: real
  current_roe :: real
  drawdown :: real
  max_roe :: real
  trade_status :: string
  exit_price :: "real option"
  exit_timestamp :: "string option"
  actual_return_pct :: "real option"
  trade_notes :: string

record PerformanceMetrics =
  total_trades :: real
  winning_trades :: real
  losing_trades :: real
  win_rate :: real
  avg_win :: real
  avg_loss :: real
  profit_factor :: real
  max_drawdown :: real
  current_balance :: real
  total_pnl :: real
  total_pnl_pct :: real
  sharpe_ratio :: real

subsection \<open>Derived views\<close>

text \<open>
  A point of \<^verbatim>\<open>equityCurve\<close>: \<^verbatim>\<open>{ time, balance, pnl, symbol, side }\<close>; the first point
  has neither symbol nor side. The two fields are prefixed, since \<^verbatim>\<open>symbol\<close> and
  \<^verbatim>\<open>side\<close> already name the fields of a trade.
\<close>

record EquityPoint =
  time :: string
  balance :: real
  pnl :: real
  point_symbol :: "string option"
  point_side :: "side option"

text \<open>
  An entry of \<^verbatim>\<open>roeDistribution\<close>: \<^verbatim>\<open>{ name, value, color }\<close>. The field
  \<^verbatim>\<open>value\<close> is written \<open>value'\<close>, the plain word being reserved in Isabelle.
\<close>

record DistEntry =
  name :: string
  value' :: nat
  color :: string

subsection \<open>JavaScript primitives the code relies on\<close>

text \<open>\<^verbatim>\<open>trade.trade_status !== 'OPEN'\<close>, the filter shared by the four views.\<close>

definition notOpen :: "TradeEntry \<Rightarrow> bool" where
  "notOpen t = (trade_status t \<noteq> ''OPEN'')"

text \<open>
  Truthiness of an optional number (\<^verbatim>\<open>undefined\<close> and 0 are falsy) and of an optional
  string (\<^verbatim>\<open>undefined\<close> and the empty string are falsy).
\<close>

definition truthy_num :: "real option \<Rightarrow> bool" where
  "truthy_num v = (case v of None \<Rightarrow> False | Some r \<Rightarrow> r \<noteq> 0)"

definition truthy_str :: "string option \<Rightarrow> bool" where
  "truthy_str v = (case v of None \<Rightarrow> False | Some s \<Rightarrow> s \<noteq> [])"

text \<open>\<^verbatim>\<open>v || 0\<close> on an optional number.\<close>

definition or_zero :: "real option \<Rightarrow> real" where
  "or_zero v = (if truthy_num v then the v else 0)"

text \<open>
  The comparator \<^verbatim>\<open>new Date(a).getTime() - new Date(b).getTime()\<close>: the difference of
  the two times, NaN (\<^term>\<open>None\<close>) as soon as one of the strings does not parse.
\<close>

definition time_diff :: "(string \<Rightarrow> int option) \<Rightarrow> string \<Rightarrow> string \<Rightarrow> int option" where
  "time_diff getTime a b =
     (case getTime a of None \<Rightarrow> None
      | Some x \<Rightarrow> (case getTime b of None \<Rightarrow> None | Some y \<Rightarrow> Some (x - y)))"

text \<open>
  \<^verbatim>\<open>Array.prototype.sort(comparefn)\<close>. The language standard takes a NaN result of
  the comparator as +0 and, since ES2019, requires the sort to be stable. For a
  comparator that is a consistent ordering this fixes the result; when it is not (a NaN
  among the times) the standard leaves the order to the engine. The model follows the
  engine V8 (Chrome, Edge, Node): it looks for the run that starts the array, a
  non-descending one or a strictly descending one that it reverses
  (\<^verbatim>\<open>CountAndMakeRun\<close>), and then inserts each remaining element into the sorted front
  of the array at the place found by binary search (\<^verbatim>\<open>BinaryInsertionSort\<close>). V8 sorts
  an array of fewer than 64 elements this way; it cuts a longer one into such runs and
  merges them, with the same result whenever the comparator is consistent.
\<close>

definition sort_compare :: "('a \<Rightarrow> 'a \<Rightarrow> int option) \<Rightarrow> 'a \<Rightarrow> 'a \<Rightarrow> int" where
  "sort_compare comparefn x y = (case comparefn x y of None \<Rightarrow> 0 | Some v \<Rightarrow> v)"

text \<open>
  The number of elements after the first two that continue the run: the loop of
  \<^verbatim>\<open>CountAndMakeRun\<close>, which compares each element with the one before it.
\<close>

fun count_run :: "('a \<Rightarrow> 'a \<Rightarrow> int option) \<Rightarrow> bool \<Rightarrow> 'a \<Rightarrow> 'a list \<Rightarrow> nat" where
  "count_run comparefn isDescending previousElement [] = 0"
| "count_run comparefn isDescending previousElement (currentElement # rest) =
     (if (if isDescending then 0 \<le> sort_compare comparefn currentElement previousElement
          else sort_compare comparefn currentElement previousElement < 0)
      then 0
      else 1 + count_run comparefn isDescending currentElement rest)"

definition count_and_make_run :: "('a \<Rightarrow> 'a \<Rightarrow> int option) \<Rightarrow> 'a list \<Rightarrow> nat \<times> 'a list" where
  "count_and_make_run comparefn workArray =
     (case workArray of
        elementHigh # elementLow # rest \<Rightarrow>
          (let isDescending = (sort_compare comparefn elementLow elementHigh < 0);
               runLength = 2 + count_run comparefn isDescending elementLow rest
           in (runLength,
               if isDescending then rev (take runLength workArray) @ drop runLength workArray
               else workArray))
      | _ \<Rightarrow> (length workArray, workArray))"

text \<open>The binary search of \<^verbatim>\<open>BinaryInsertionSort\<close> for the place of \<open>pivot\<close>.\<close>

function bsearch :: "('a \<Rightarrow> 'a \<Rightarrow> int option) \<Rightarrow> 'a \<Rightarrow> 'a list \<Rightarrow> nat \<Rightarrow> nat \<Rightarrow> nat" where
  "bsearch comparefn pivot workArray left right =
     (if left < right then
        (let mid = left + (right - left) div 2
         in if sort_compare comparefn pivot (workArray ! mid) < 0
            then bsearch comparefn pivot workArray left mid
            else bsearch comparefn pivot workArray (mid + 1) right)
      else left)"
  by pat_completeness auto
termination
  by (relation "measure (\<lambda>(comparefn, pivot, workArray, left, right). right - left)") auto

declare bsearch.simps [simp del]

text \<open>
  One round of \<^verbatim>\<open>BinaryInsertionSort\<close>: the element at \<open>start\<close> moves to the place
  found, and the elements from there to \<open>start\<close> move up by one.
\<close>

definition binary_insert :: "('a \<Rightarrow> 'a \<Rightarrow> int option) \<Rightarrow> 'a list \<Rightarrow> nat \<Rightarrow> 'a list" where
  "binary_insert comparefn workArray start =
     (let pivot = workArray ! start;
          left = bsearch comparefn pivot workArray 0 start
      in take left workArray @ pivot # drop left (take start workArray)
         @ drop (start + 1) workArray)"

function binary_insertion_sort ::
  "('a \<Rightarrow> 'a \<Rightarrow> int option) \<Rightarrow> nat \<Rightarrow> nat \<Rightarrow> 'a list \<Rightarrow> 'a list" where
  "binary_insertion_sort comparefn start high workArray =
     (if start < high
      then binary_insertion_sort comparefn (start + 1) high (binary_insert comparefn workArray start)
      else workArray)"
  by pat_completeness auto
termination
  by (relation "measure (\<lambda>(comparefn, start, high, workArray). high - start)") auto

declare binary_insertion_sort.simps [simp del]

definition js_sort :: "('a \<Rightarrow> 'a \<Rightarrow> int option) \<Rightarrow> 'a list \<Rightarrow> 'a list" where
  "js_sort comparefn xs =
     (if length xs < 2 then xs
      else
        let (runLength, workArray) = count_and_make_run comparefn xs
        in binary_insertion_sort comparefn runLength (length xs) workArray)"

text \<open>The decimal numeral of a number, as the template literal \<^verbatim>\<open>`Trade ${index + 1}`\<close> prints it.\<close>

definition digit_char :: "nat \<Rightarrow> char" where
  "digit_char d = ''0123456789'' ! d"

fun decimal :: "nat \<Rightarrow> string" where
  "decimal n = (if n < 10 then [digit_char n] else decimal (n div 10) @ [digit_char (n mod 10)])"

declare decimal.simps [simp del]

subsection \<open>equityCurve\<close>

text \<open>
  \<^verbatim>\<open>trades.filter(trade => trade.trade_status !== 'OPEN').sort(...)\<close>: the closed trades
  in the order in which the curve replays them.
\<close>

definition closedTrades :: "(string \<Rightarrow> int option) \<Rightarrow> TradeEntry list \<Rightarrow> TradeEntry list" where
  "closedTrades getTime trades =
     js_sort (\<lambda>a b. time_diff getTime (timestamp a) (timestamp b)) (filter notOpen trades)"

text \<open>
  The body of \<^verbatim>\<open>closedTrades.forEach((trade, index) => ...)\<close>, with the captured variable
  \<^verbatim>\<open>balance\<close> passed along (\<open>bal\<close>; \<open>inc\<close> is the local \<^verbatim>\<open>pnl\<close>); the result is the
  list of the points pushed.
\<close>

fun replay :: "nat \<Rightarrow> real \<Rightarrow> TradeEntry list \<Rightarrow> EquityPoint list" where
  "replay index bal [] = []"
| "replay index bal (trade # rest) =
     (let inc = (if truthy_num (actual_return_pct trade)
                 then (the (actual_return_pct trade) / 100) * bal else 0);
          bal' = bal + inc
      in \<lparr>time = ''Trade '' @ decimal (index + 1), balance = bal', pnl = inc,
           point_symbol = Some (symbol trade), point_side = Some (side trade)\<rparr>
         # replay (index + 1) bal' rest)"

definition equityCurve ::
  "(string \<Rightarrow> int option) \<Rightarrow> TradeEntry list \<Rightarrow> PerformanceMetrics option \<Rightarrow> EquityPoint list" where
  "equityCurve getTime trades performance =
     (if length trades = 0 \<or> performance = None then []
      else
        let bal = current_balance (the performance) - total_pnl (the performance);
            curve = [\<lparr>time = ''Start'', balance = bal, pnl = 0,
                      point_symbol = None, point_side = None\<rparr>]
        in curve @ replay 0 bal (closedTrades getTime trades))"

subsection \<open>Objects used as dictionaries\<close>

text \<open>
  \<^verbatim>\<open>symbolStats\<close> and \<^verbatim>\<open>dailyStats\<close> are objects used as dictionaries
  (\<^verbatim>\<open>Record<string, ...>\<close>). Such an object is an association list in the order in which
  the properties were created: \<^const>\<open>map_of\<close> reads a property and \<^const>\<open>AList.update\<close>
  assigns one, in place when it exists and at the end when it is new. The keys are
  taken not to be names that every object inherits (\<^verbatim>\<open>constructor\<close>, \<^verbatim>\<open>toString\<close>, ...).

  \<^verbatim>\<open>Object.entries\<close> lists the properties whose name is an array index (the decimal
  numeral, without leading zero, of a number below \<open>2\<^sup>3\<^sup>2 - 1\<close>) first, by increasing
  index, and the others after them in creation order.
\<close>

definition digit_of :: "char \<Rightarrow> nat option" where
  "digit_of c =
     map_of [(CHR ''0'', 0), (CHR ''1'', 1), (CHR ''2'', 2), (CHR ''3'', 3), (CHR ''4'', 4),
             (CHR ''5'', 5), (CHR ''6'', 6), (CHR ''7'', 7), (CHR ''8'', 8), (CHR ''9'', 9)] c"

fun numeral_value :: "nat \<Rightarrow> string \<Rightarrow> nat option" where
  "numeral_value acc [] = Some acc"
| "numeral_value acc (c # cs) =
     (case digit_of c of None \<Rightarrow> None | Some d \<Rightarrow> numeral_value (10 * acc + d) cs)"

definition array_index :: "string \<Rightarrow> nat option" where
  "array_index s =
     (if s = [] \<or> (hd s = CHR ''0'' \<and> s \<noteq> ''0'') then None
      else case numeral_value 0 s of
             None \<Rightarrow> None
           | Some n \<Rightarrow> if n < 2 ^ 32 - 1 then Some n else None)"

definition object_entries :: "(string \<times> 'v) list \<Rightarrow> (string \<times> 'v) list" where
  "object_entries props =
     sort_key (\<lambda>kv. the (array_index (fst kv))) (filter (\<lambda>kv. array_index (fst kv) \<noteq> None) props)
     @ filter (\<lambda>kv. array_index (fst kv) = None) props"

subsection \<open>symbolPerformance\<close>

text \<open>
  The accumulated object of a symbol, \<^verbatim>\<open>{ wins, losses, totalPnL }\<close>, and the entry
  returned for it, \<^verbatim>\<open>{ symbol, ...stats, total, winRate }\<close>, which extends it.
\<close>

record stats =
  wins :: nat
  losses :: nat
  totalPnL :: real

record SymbolStat = stats +
  stat_symbol :: string
  total' :: nat
  winRate :: real

text \<open>
  The read \<^verbatim>\<open>stats.total\<close> on line 58. There \<^verbatim>\<open>stats\<close> is the accumulated object,
  which has the properties \<^verbatim>\<open>wins\<close>, \<^verbatim>\<open>losses\<close> and \<^verbatim>\<open>totalPnL\<close> (lines 38 and 42);
  \<^verbatim>\<open>total\<close> is a property of the object literal under construction, not of
  \<^verbatim>\<open>stats\<close>, so the read gives \<^verbatim>\<open>undefined\<close>.
\<close>

definition stats_total :: "stats \<Rightarrow> real option" where
  "stats_total s = None"

text \<open>\<^verbatim>\<open>v > 0\<close>, which is false when \<open>v\<close> is \<^verbatim>\<open>undefined\<close>.\<close>

definition gt_zero :: "real option \<Rightarrow> bool" where
  "gt_zero v = (case v of None \<Rightarrow> False | Some x \<Rightarrow> 0 < x)"

text \<open>The body of the \<^verbatim>\<open>forEach\<close> on lines 40 to 52.\<close>

definition symbol_step :: "(string \<times> stats) list \<Rightarrow> TradeEntry \<Rightarrow> (string \<times> stats) list" where
  "symbol_step symbolStats trade =
     (let s1 = (if map_of symbolStats (symbol trade) = None
                then AList.update (symbol trade) \<lparr>wins = 0, losses = 0, totalPnL = 0\<rparr> symbolStats
                else symbolStats);
          cur = the (map_of s1 (symbol trade));
          s2 = (if trade_status trade = ''CLOSED_WIN''
                then AList.update (symbol trade) (cur\<lparr>wins := wins cur + 1\<rparr>) s1
                else AList.update (symbol trade) (cur\<lparr>losses := losses cur + 1\<rparr>) s1);
          cur' = the (map_of s2 (symbol trade))
      in AList.update (symbol trade)
           (cur'\<lparr>totalPnL := totalPnL cur' + or_zero (actual_return_pct trade)\<rparr>) s2)"

text \<open>The rows returned on lines 54 to 59, from the dictionary that the loop has filled.\<close>

definition symbolRows :: "(string \<times> stats) list \<Rightarrow> SymbolStat list" where
  "symbolRows symbolStats =
     map (\<lambda>(sym, st).
            stats.extend st
              \<lparr>stat_symbol = sym,
               total' = wins st + losses st,
               winRate = (if gt_zero (stats_total st)
                          then (real (wins st) / the (stats_total st)) * 100 else 0)\<rparr>)
         (object_entries symbolStats)"

definition symbolPerformance :: "TradeEntry list \<Rightarrow> SymbolStat list" where
  "symbolPerformance trades = symbolRows (foldl symbol_step [] (filter notOpen trades))"

subsection \<open>dailyPnL\<close>

text \<open>An entry of \<^verbatim>\<open>dailyPnL\<close>: \<^verbatim>\<open>{ date, pnl }\<close>.\<close>

record DailyEntry =
  date :: string
  daily_pnl :: real

text \<open>
  \<^verbatim>\<open>new Date(s).toDateString()\<close>: the day of a valid date, the string
  \<^verbatim>\<open>Invalid Date\<close> otherwise.
\<close>

definition toDateString :: "(string \<Rightarrow> int option) \<Rightarrow> (int \<Rightarrow> string) \<Rightarrow> string \<Rightarrow> string" where
  "toDateString getTime dayOf s = (case getTime s of None \<Rightarrow> ''Invalid Date'' | Some ms \<Rightarrow> dayOf ms)"

text \<open>The filter on line 65 and the body of its \<^verbatim>\<open>forEach\<close>.\<close>

definition hasExit :: "TradeEntry \<Rightarrow> bool" where
  "hasExit t = (notOpen t \<and> truthy_str (exit_timestamp t))"

definition daily_step ::
  "(string \<Rightarrow> int option) \<Rightarrow> (int \<Rightarrow> string) \<Rightarrow> (string \<times> real) list \<Rightarrow> TradeEntry
   \<Rightarrow> (string \<times> real) list" where
  "daily_step getTime dayOf dailyStats trade =
     (let d = toDateString getTime dayOf (the (exit_timestamp trade));
          s1 = (if \<not> truthy_num (map_of dailyStats d) then AList.update d 0 dailyStats
                else dailyStats)
      in AList.update d (the (map_of s1 d) + or_zero (actual_return_pct trade)) s1)"

text \<open>The rows returned on lines 71 to 73, from the dictionary that the loop has filled.\<close>

definition dailyRows :: "(string \<Rightarrow> int option) \<Rightarrow> (string \<times> real) list \<Rightarrow> DailyEntry list" where
  "dailyRows getTime dailyStats =
     js_sort (\<lambda>a b. time_diff getTime (date a) (date b))
       (map (\<lambda>(d, v). \<lparr>date = d, daily_pnl = v\<rparr>) (object_entries dailyStats))"

definition dailyPnL ::
  "(string \<Rightarrow> int option) \<Rightarrow> (int \<Rightarrow> string) \<Rightarrow> TradeEntry list \<Rightarrow> DailyEntry list" where
  "dailyPnL getTime dayOf trades =
     dailyRows getTime (foldl (daily_step getTime dayOf) [] (filter hasExit trades))"

subsection \<open>roeDistribution\<close>

definition roeDistribution :: "TradeEntry list \<Rightarrow> DistEntry list" where
  "roeDistribution trades =
     (let closedTrades = filter notOpen trades;
          wins = length (filter (\<lambda>t. trade_status t = ''CLOSED_WIN'') closedTrades);
          losses = length (filter (\<lambda>t. trade_status t = ''CLOSED_LOSS'') closedTrades)
      in [\<lparr>name = ''Wins'', value' = wins, color = ''hsl(var(--profit))''\<rparr>,
          \<lparr>name = ''Losses'', value' = losses, color = ''hsl(var(--loss))''\<rparr>])"

subsection \<open>The views on a store\<close>

text \<open>
  To say what the views leave unchanged, the objects they are given are placed in a
  store: the trade objects and the performance snapshots by address, and the arrays,
  which hold addresses of trade objects. The component receives the address of the
  caller's array and the address of the snapshot, or \<^verbatim>\<open>null\<close>.

  \<^verbatim>\<open>filter\<close> creates a new array, at the next free address, and leaves its receiver as
  it is; \<^verbatim>\<open>sort\<close> reorders its receiver in place and returns it. No statement of the
  four views assigns to a field of a trade or of the snapshot, so the store operations
  below write arrays only.
\<close>

record store =
  objects :: "TradeEntry list"
  snapshots :: "PerformanceMetrics list"
  arrays :: "nat list list"

definition elements :: "store \<Rightarrow> nat \<Rightarrow> TradeEntry list" where
  "elements s a = map (\<lambda>r. objects s ! r) (arrays s ! a)"

definition array_filter :: "(TradeEntry \<Rightarrow> bool) \<Rightarrow> nat \<Rightarrow> store \<Rightarrow> nat \<times> store" where
  "array_filter P a s =
     (length (arrays s),
      s\<lparr>arrays := arrays s @ [filter (\<lambda>r. P (objects s ! r)) (arrays s ! a)]\<rparr>)"

definition array_sort ::
  "(TradeEntry \<Rightarrow> TradeEntry \<Rightarrow> int option) \<Rightarrow> nat \<Rightarrow> store \<Rightarrow> nat \<times> store" where
  "array_sort comparefn a s =
     (a, s\<lparr>arrays := (arrays s)
              [a := js_sort (\<lambda>x y. comparefn (objects s ! x) (objects s ! y)) (arrays s ! a)]\<rparr>)"

definition equityCurve_store ::
  "(string \<Rightarrow> int option) \<Rightarrow> nat \<Rightarrow> nat option \<Rightarrow> store \<Rightarrow> EquityPoint list \<times> store" where
  "equityCurve_store getTime trades performance s =
     (if length (arrays s ! trades) = 0 \<or> performance = None then ([], s)
      else
        let perf = snapshots s ! the performance;
            bal = current_balance perf - total_pnl perf;
            curve = [\<lparr>time = ''Start'', balance = bal, pnl = 0,
                      point_symbol = None, point_side = None\<rparr>];
            (filtered, s1) = array_filter notOpen trades s;
            (closed, s2) =
               array_sort (\<lambda>a b. time_diff getTime (timestamp a) (timestamp b)) filtered s1
        in (curve @ replay 0 bal (elements s2 closed), s2))"

definition symbolPerformance_store :: "nat \<Rightarrow> store \<Rightarrow> SymbolStat list \<times> store" where
  "symbolPerformance_store trades s =
     (let (filtered, s1) = array_filter notOpen trades s
      in (symbolRows (foldl symbol_step [] (elements s1 filtered)), s1))"

definition dailyPnL_store ::
  "(string \<Rightarrow> int option) \<Rightarrow> (int \<Rightarrow> string) \<Rightarrow> nat \<Rightarrow> store \<Rightarrow> DailyEntry list \<times> store" where
  "dailyPnL_store getTime dayOf trades s =
     (let (filtered, s1) = array_filter hasExit trades s
      in (dailyRows getTime (foldl (daily_step getTime dayOf) [] (elements s1 filtered)), s1))"

definition roeDistribution_store :: "nat \<Rightarrow> store \<Rightarrow> DistEntry list \<times> store" where
  "roeDistribution_store trades s =
     (let (closedTrades, s1) = array_filter notOpen trades s;
          (won, s2) = array_filter (\<lambda>t. trade_status t = ''CLOSED_WIN'') closedTrades s1;
          (lost, s3) = array_filter (\<lambda>t. trade_status t = ''CLOSED_LOSS'') closedTrades s2
      in ([\<lparr>name = ''Wins'', value' = length (arrays s3 ! won), color = ''hsl(var(--profit))''\<rparr>,
           \<lparr>name = ''Losses'', value' = length (arrays s3 ! lost), color = ''hsl(var(--loss))''\<rparr>],
          s3))"

text \<open>
  What a call leaves unchanged between the store before and the store after: every
  trade object, every snapshot, and every array that existed before the call.
\<close>

definition unchanged :: "store \<Rightarrow> store \<Rightarrow> bool" where
  "unchanged s s' =
     (objects s' = objects s \<and> snapshots s' = snapshots s
      \<and> take (length (arrays s)) (arrays s') = arrays s)"

subsection \<open>Predicates of the properties\<close>

text \<open>Consecutive numbers of a list are strictly ordered, one way or the other.\<close>

fun strictly_ordered :: "real list \<Rightarrow> bool" where
  "strictly_ordered (x # y # ys) = ((x < y \<or> y < x) \<and> strictly_ordered (y # ys))"
| "strictly_ordered _ = True"

subsection \<open>Sample data\<close>

text \<open>
  Concrete records on which the properties below are evaluated: an open trade, from
  which the other sample trades are obtained by field updates, a performance snapshot
  and a small table standing for the clock (\<^verbatim>\<open>Date\<close>) on the strings that occur.
\<close>

definition sample_open :: TradeEntry where
  "sample_open =
     \<lparr>trade_id = ''T-2'', timestamp = ''2024-03-02T09:00:00Z'', symbol = ''BTCUSDT'', side = LONG,
      entry_price = 100, quantity = 1, leverage = 5, risk_pct = 1, reward_pct = 2,
      stop_loss = 99, take_profit = 102, current_roe = 0, drawdown = 0, max_roe = 0,
      trade_status = ''OPEN'', exit_price = None, exit_timestamp = None,
      actual_return_pct = None, trade_notes = []\<rparr>"

definition sample_win :: TradeEntry where
  "sample_win =
     sample_open\<lparr>trade_id := ''T-1'', timestamp := ''2024-03-01T09:00:00Z'',
       trade_status := ''CLOSED_WIN'', exit_price := Some 110,
       exit_timestamp := Some ''2024-03-01T17:00:00Z'', actual_return_pct := Some 10\<rparr>"

definition sample_perf :: PerformanceMetrics where
  "sample_perf =
     \<lparr>total_trades = 1, winning_trades = 1, losing_trades = 0, win_rate = 100, avg_win = 10,
      avg_loss = 0, profit_factor = 0, max_drawdown = 0, current_balance = 11000,
      total_pnl = 1000, total_pnl_pct = 10, sharpe_ratio = 0\<rparr>"

definition sample_getTime :: "string \<Rightarrow> int option" where
  "sample_getTime s =
     map_of [(''2024-01-01T17:00:00Z'', 1704128400000),
             (''2024-03-01T09:00:00Z'', 1709283600000),
             (''2024-03-01T17:00:00Z'', 1709312400000),
             (''2024-03-02T09:00:00Z'', 1709370000000),
             (''Mon Jan 01 2024'', 1704067200000),
             (''Fri Mar 01 2024'', 1709251200000),
             (''Sat Mar 02 2024'', 1709337600000)] s"

text \<open>
  A losing trade opened before \<open>sample_win\<close> and closed after it; a trade opened at the
  same time as \<open>sample_win\<close>; a trade closed at break-even; a trade closed in January;
  a trade whose two timestamps are not dates.
\<close>

definition sample_loss :: TradeEntry where
  "sample_loss =
     sample_open\<lparr>trade_id := ''T-0'', timestamp := ''2024-01-01T17:00:00Z'',
       trade_status := ''CLOSED_LOSS'', exit_price := Some 97,
       exit_timestamp := Some ''2024-03-02T09:00:00Z'', actual_return_pct := Some (- 3)\<rparr>"

definition sample_tie :: TradeEntry where
  "sample_tie = sample_win\<lparr>trade_id := ''T-3'', symbol := ''ETHUSDT''\<rparr>"

definition sample_flat :: TradeEntry where
  "sample_flat = sample_win\<lparr>trade_id := ''T-5'', exit_price := Some 100, actual_return_pct := Some 0\<rparr>"

definition sample_jan :: TradeEntry where
  "sample_jan =
     sample_win\<lparr>trade_id := ''T-4'', exit_timestamp := Some ''2024-01-01T17:00:00Z'',
       actual_return_pct := Some 4\<rparr>"

definition sample_bad :: TradeEntry where
  "sample_bad =
     sample_win\<lparr>trade_id := ''T-6'', timestamp := ''not a date'',
       exit_timestamp := Some ''not a date''\<rparr>"

text \<open>The trade with unparsable timestamps, on another symbol.\<close>

definition sample_bad_sol :: TradeEntry where
  "sample_bad_sol = sample_bad\<lparr>trade_id := ''T-9'', symbol := ''SOLUSDT''\<rparr>"

text \<open>A winning trade returning 5 per cent; a closed trade that has no exit timestamp.\<close>

definition sample_win5 :: TradeEntry where
  "sample_win5 = sample_win\<lparr>trade_id := ''T-7'', actual_return_pct := Some 5\<rparr>"

definition sample_noexit :: TradeEntry where
  "sample_noexit = sample_win\<lparr>trade_id := ''T-8'', exit_timestamp := None\<rparr>"

text \<open>The calendar day of the sample times, as \<^verbatim>\<open>toDateString()\<close> prints it in UTC.\<close>

definition sample_dayOf :: "int \<Rightarrow> string" where
  "sample_dayOf ms =
     (if ms = 1704128400000 then ''Mon Jan 01 2024''
      else if ms = 1709283600000 \<or> ms = 1709312400000 then ''Fri Mar 01 2024''
      else if ms = 1709370000000 then ''Sat Mar 02 2024''
      else ''Thu Jan 01 1970'')"

text \<open>A store holding three trades, one snapshot and the caller's array of the three trades.\<close>

definition sample_store :: store where
  "sample_store =
     \<lparr>objects = [sample_win, sample_open, sample_loss], snapshots = [sample_perf],
      arrays = [[0, 1, 2]]\<rparr>"

section \<open>Properties\<close>

subsection \<open>The sort\<close>

text \<open>The binary search stays within the bounds it is given.\<close>

lemma bsearch_bounds:
  "left \<le> right \<Longrightarrow>
   left \<le> bsearch c p ws left right \<and> bsearch c p ws left right \<le> right"
proof (induction c p ws left right rule: bsearch.induct)
  case (1 c p ws left right)
  show ?case
  proof (cases "left < right")
    case False
    with "1.prems" show ?thesis by (simp add: bsearch.simps)
  next
    case True
    define mid where "mid = left + (right - left) div 2"
    have m: "left \<le> mid" "mid < right" using True by (simp_all add: mid_def)
    show ?thesis
    proof (cases "sort_compare c p (ws ! mid) < 0")
      case True
      with "1.IH"(1) [OF \<open>left < right\<close> mid_def True] m
      have "left \<le> bsearch c p ws left mid \<and> bsearch c p ws left mid \<le> mid" by simp
      moreover have "bsearch c p ws left right = bsearch c p ws left mid"
        using \<open>left < right\<close> True by (subst bsearch.simps) (simp add: mid_def Let_def)
      ultimately show ?thesis using m by simp
    next
      case False
      with "1.IH"(2) [OF \<open>left < right\<close> mid_def False] m
      have "mid + 1 \<le> bsearch c p ws (mid + 1) right \<and> bsearch c p ws (mid + 1) right \<le> right"
        by simp
      moreover have "bsearch c p ws left right = bsearch c p ws (mid + 1) right"
        using \<open>left < right\<close> False by (subst bsearch.simps) (simp add: mid_def Let_def)
      ultimately show ?thesis using m by simp
    qed
  qed
qed

text \<open>A round of the insertion sort, and so the whole of it, permutes the array.\<close>

lemma binary_insert_shape:
  assumes "start < length ws"
  shows "\<exists>i\<le>start. binary_insert c ws start
           = take i (take start ws) @ ws ! start # drop i (take start ws) @ drop (start + 1) ws"
proof -
  define i where "i = bsearch c (ws ! start) ws 0 start"
  have "i \<le> start" using bsearch_bounds [of 0 start c "ws ! start" ws] by (simp add: i_def)
  moreover have "take i ws = take i (take start ws)"
    using \<open>i \<le> start\<close> by (simp add: min_def)
  ultimately show ?thesis
    by (auto simp: binary_insert_def Let_def i_def [symmetric])
qed

lemma mset_binary_insert:
  assumes "start < length ws"
  shows "mset (binary_insert c ws start) = mset ws"
proof -
  from binary_insert_shape [OF assms, of c] obtain i where
    "binary_insert c ws start
           = take i (take start ws) @ ws ! start # drop i (take start ws) @ drop (start + 1) ws"
    by blast
  then have "mset (binary_insert c ws start)
      = mset (take i (take start ws) @ drop i (take start ws)) + mset (ws ! start # drop (start + 1) ws)"
    by simp
  also have "\<dots> = mset (take start ws @ ws ! start # drop (start + 1) ws)"
    by (simp only: append_take_drop_id mset_append)
  also have "\<dots> = mset ws"
    using id_take_nth_drop [OF assms] by simp
  finally show ?thesis .
qed

lemma length_binary_insert:
  "start < length ws \<Longrightarrow> length (binary_insert c ws start) = length ws"
  using mset_binary_insert [of start ws c] by (metis size_mset)

lemma mset_binary_insertion_sort:
  "high \<le> length ws \<Longrightarrow> mset (binary_insertion_sort c start high ws) = mset ws"
proof (induction c start high ws rule: binary_insertion_sort.induct)
  case (1 c start high ws)
  show ?case
  proof (cases "start < high")
    case True
    then have lt: "start < length ws" using "1.prems" by simp
    have "mset (binary_insertion_sort c (start + 1) high (binary_insert c ws start))
          = mset (binary_insert c ws start)"
      using "1.IH" [OF True] "1.prems" lt by (simp add: length_binary_insert)
    then show ?thesis
      using True lt by (subst binary_insertion_sort.simps) (simp add: mset_binary_insert)
  next
    case False
    then show ?thesis by (subst binary_insertion_sort.simps) simp
  qed
qed

lemma count_run_le: "count_run c d prev rest \<le> length rest"
  by (induction rest arbitrary: prev) auto

lemma count_and_make_run_mset:
  "mset (snd (count_and_make_run c ws)) = mset ws"
  "length (snd (count_and_make_run c ws)) = length ws"
  "fst (count_and_make_run c ws) \<le> length ws"
proof -
  show m: "mset (snd (count_and_make_run c ws)) = mset ws"
    by (auto simp: count_and_make_run_def Let_def split: list.split)
       (metis append_take_drop_id mset_append mset_rev)
  then show "length (snd (count_and_make_run c ws)) = length ws"
    by (metis size_mset)
  show "fst (count_and_make_run c ws) \<le> length ws"
    using count_run_le by (auto simp: count_and_make_run_def Let_def split: list.split)
qed

text \<open>Whatever the comparator, the sort returns a permutation of its argument.\<close>

lemma mset_js_sort: "mset (js_sort c xs) = mset xs"
  by (simp add: js_sort_def case_prod_beta mset_binary_insertion_sort count_and_make_run_mset)

lemma length_js_sort: "length (js_sort c xs) = length xs"
  using mset_js_sort [of c xs] by (metis size_mset)


text \<open>
  When the comparator agrees with the order of a key, the place found by the binary
  search is behind the elements whose key is at most that of the pivot and in front of
  those whose key is greater.
\<close>

lemma bsearch_spec:
  "(\<And>j. j < start \<Longrightarrow> (sort_compare c p (ws ! j) < 0) = (key p < key (ws ! j))) \<Longrightarrow>
         sorted (map key (take start ws)) \<Longrightarrow> start \<le> length ws \<Longrightarrow>
         left \<le> right \<Longrightarrow> right \<le> start \<Longrightarrow>
         (\<forall>j<left. key (ws ! j) \<le> key p) \<Longrightarrow>
         (\<forall>j. right \<le> j \<and> j < start \<longrightarrow> key p < key (ws ! j)) \<Longrightarrow>
         (\<forall>j < bsearch c p ws left right. key (ws ! j) \<le> key p)
         \<and> (\<forall>j. bsearch c p ws left right \<le> j \<and> j < start \<longrightarrow> key p < key (ws ! j))"
proof (induction c p ws left right rule: bsearch.induct)
  case (1 c p ws left right)
  note cmp = "1.prems"(1) and srt = "1.prems"(2) and len = "1.prems"(3)
  have mono: "key (ws ! i) \<le> key (ws ! j)" if "i \<le> j" "j < start" for i j
  proof -
    have "map key (take start ws) ! i \<le> map key (take start ws) ! j"
      using srt that len by (intro sorted_nth_mono) simp_all
    then show ?thesis using that len by simp
  qed
  show ?case
  proof (cases "left < right")
    case False
    then have "bsearch c p ws left right = left" by (subst bsearch.simps) simp
    moreover from False "1.prems"(4) have "left = right" by simp
    ultimately show ?thesis using "1.prems"(6,7) by simp
  next
    case True
    define mid where "mid = left + (right - left) div 2"
    have m: "left \<le> mid" "mid < right" "mid < start"
      using True "1.prems"(5) by (simp_all add: mid_def)
    show ?thesis
    proof (cases "sort_compare c p (ws ! mid) < 0")
      case lt: True
      then have k: "key p < key (ws ! mid)" using cmp [OF m(3)] by simp
      have eq: "bsearch c p ws left right = bsearch c p ws left mid"
        using True lt by (subst bsearch.simps) (simp add: mid_def Let_def)
      have up: "\<forall>j. mid \<le> j \<and> j < start \<longrightarrow> key p < key (ws ! j)"
        using k mono by (meson less_le_trans)
      from "1.IH"(1) [OF True mid_def lt cmp srt len m(1) _ "1.prems"(6) up] m "1.prems"(5)
      show ?thesis unfolding eq by simp
    next
      case ge: False
      then have k: "key (ws ! mid) \<le> key p" using cmp [OF m(3)] by simp
      have eq: "bsearch c p ws left right = bsearch c p ws (mid + 1) right"
        using True ge by (subst bsearch.simps) (simp add: mid_def Let_def)
      have low: "\<forall>j<mid + 1. key (ws ! j) \<le> key p"
      proof (intro allI impI)
        fix j assume "j < mid + 1"
        then have "j \<le> mid" by simp
        from mono [OF this m(3)] k show "key (ws ! j) \<le> key p" by simp
      qed
      from "1.IH"(2) [OF True mid_def ge cmp srt len _ "1.prems"(5) low "1.prems"(7)] m
      show ?thesis unfolding eq by simp
    qed
  qed
qed

text \<open>
  Appending an element to a list and sorting by the key is inserting it into the sorted
  list behind the elements whose key is not greater.
\<close>

lemma sort_key_snoc:
  fixes f :: "'a \<Rightarrow> int"
  assumes S: "S = sort_key f xs" and i: "i \<le> length S"
    and low: "\<forall>j<i. f (S ! j) \<le> f p"
    and up: "\<forall>j. i \<le> j \<and> j < length S \<longrightarrow> f p < f (S ! j)"
  shows "sort_key f (xs @ [p]) = take i S @ p # drop i S"
proof (rule properties_for_sort_key)
  have "mset (take i S) + mset (drop i S) = mset S"
    by (metis append_take_drop_id mset_append)
  then have "mset (take i S @ p # drop i S) = add_mset p (mset S)"
    by simp
  then show "mset (take i S @ p # drop i S) = mset (xs @ [p])"
    by (simp add: S)
next
  have lowset: "f x \<le> f p" if "x \<in> set (take i S)" for x
    using that low i by (auto simp: in_set_conv_nth)
  have upset: "f p < f y" if "y \<in> set (drop i S)" for y
  proof -
    from that obtain n where "n < length S - i" "y = S ! (i + n)"
      by (auto simp: in_set_conv_nth)
    with up show ?thesis by simp
  qed
  have sS: "sorted (map f S)" by (simp add: S)
  have "sorted (take i (map f S))" "sorted (drop i (map f S))"
    using sS by (rule sorted_wrt_take, rule sorted_wrt_drop)
  then have parts: "sorted (map f (take i S))" "sorted (map f (drop i S))"
    by (simp_all add: take_map drop_map)
  show "sorted (map f (take i S @ p # drop i S))"
    using parts lowset upset by (fastforce simp: sorted_append)
  fix k
  assume "k \<in> set (take i S @ p # drop i S)"
  have stab: "filter (\<lambda>x. f k = f x) S = filter (\<lambda>x. f k = f x) xs"
    using sort_key_stable [of f "f k" xs] by (simp add: S eq_commute)
  have split: "filter (\<lambda>x. f k = f x) S
      = filter (\<lambda>x. f k = f x) (take i S) @ filter (\<lambda>x. f k = f x) (drop i S)"
    by (metis append_take_drop_id filter_append)
  show "filter (\<lambda>x. f k = f x) (take i S @ p # drop i S) = filter (\<lambda>x. f k = f x) (xs @ [p])"
  proof (cases "f k = f p")
    case True
    have "f k \<noteq> f y" if "y \<in> set (drop i S)" for y
      using upset [OF that] True by simp
    then have "filter (\<lambda>x. f k = f x) (drop i S) = []"
      by (simp add: filter_empty_conv)
    with True stab split show ?thesis by simp
  next
    case False
    with stab split show ?thesis by simp
  qed
qed


lemma binary_insert_key:
  fixes key :: "'a \<Rightarrow> int"
  assumes K: "\<forall>x\<in>set ws. \<forall>y\<in>set ws. (sort_compare c x y < 0) = (key x < key y)"
    and lt: "start < length ws" and pre: "take start ws = sort_key key pre"
  shows "take (start + 1) (binary_insert c ws start) = sort_key key (pre @ [ws ! start])"
    and "drop (start + 1) (binary_insert c ws start) = drop (start + 1) ws"
proof -
  define p where "p = ws ! start"
  define S where "S = take start ws"
  define i where "i = bsearch c p ws 0 start"
  have lenS: "length S = start" using lt by (simp add: S_def)
  have nthS: "S ! j = ws ! j" if "j < start" for j using that by (simp add: S_def)
  have i_le: "i \<le> start"
    using bsearch_bounds [of 0 start c p ws] by (simp add: i_def)
  have cmp: "(sort_compare c p (ws ! j) < 0) = (key p < key (ws ! j))" if "j < start" for j
    using K lt that by (simp add: p_def)
  have srt: "sorted (map key (take start ws))" by (simp add: pre)
  have spec: "(\<forall>j<i. key (ws ! j) \<le> key p) \<and> (\<forall>j. i \<le> j \<and> j < start \<longrightarrow> key p < key (ws ! j))"
    unfolding i_def
    by (rule bsearch_spec [where start = start]) (use cmp srt lt in simp_all)
  have snoc: "sort_key key (pre @ [p]) = take i S @ p # drop i S"
  proof (rule sort_key_snoc)
    show "S = sort_key key pre" by (simp add: S_def pre)
    show "i \<le> length S" using i_le lenS by simp
    show "\<forall>j<i. key (S ! j) \<le> key p" using spec i_le nthS by simp
    show "\<forall>j. i \<le> j \<and> j < length S \<longrightarrow> key p < key (S ! j)" using spec lenS nthS by simp
  qed
  have ti: "take i ws = take i S" using i_le by (simp add: S_def min_def)
  have bi: "binary_insert c ws start = (take i S @ p # drop i S) @ drop (start + 1) ws"
    by (simp add: binary_insert_def Let_def p_def [symmetric] i_def [symmetric] ti S_def)
  have len: "length (take i S @ p # drop i S) = start + 1"
    using i_le lenS by simp
  define A where "A = take i S @ p # drop i S"
  have lenA: "length A = start + 1" using len by (simp add: A_def)
  have "take (length A) (A @ drop (start + 1) ws) = A" by simp
  then show "take (start + 1) (binary_insert c ws start) = sort_key key (pre @ [ws ! start])"
    unfolding bi A_def [symmetric] lenA using snoc by (simp add: p_def A_def)
  have "drop (length A) (A @ drop (start + 1) ws) = drop (start + 1) ws" by simp
  then show "drop (start + 1) (binary_insert c ws start) = drop (start + 1) ws"
    unfolding bi A_def [symmetric] lenA .
qed


lemma binary_insertion_sort_key:
  fixes key :: "'a \<Rightarrow> int"
  shows "(\<forall>x\<in>set xs. \<forall>y\<in>set xs. (sort_compare c x y < 0) = (key x < key y)) \<Longrightarrow>
   high = length xs \<Longrightarrow> length ws = length xs \<Longrightarrow> start \<le> high \<Longrightarrow>
   take start ws = sort_key key (take start xs) \<Longrightarrow> drop start ws = drop start xs \<Longrightarrow>
   binary_insertion_sort c start high ws = sort_key key xs"
proof (induction c start high ws rule: binary_insertion_sort.induct)
  case (1 c start high ws)
  note K = "1.prems"(1) and high = "1.prems"(2) and len = "1.prems"(3)
    and tk = "1.prems"(5) and dr = "1.prems"(6)
  show ?case
  proof (cases "start < high")
    case False
    with "1.prems"(4) have "start = length ws" using high len by simp
    then have "take start ws = ws" "take start xs = xs" using len by simp_all
    with tk have "ws = sort_key key xs" by simp
    with False show ?thesis by (subst binary_insertion_sort.simps) simp
  next
    case True
    then have lt: "start < length ws" "start < length xs" using high len by simp_all
    have e: "sort_key key (take start xs) @ drop start xs = ws"
      using append_take_drop_id [of start ws] unfolding tk dr .
    have "set ws = set (sort_key key (take start xs) @ drop start xs)"
      by (simp only: e)
    also have "\<dots> = set (take start xs @ drop start xs)"
      by (simp del: append_take_drop_id)
    also have "\<dots> = set xs"
      by (simp only: append_take_drop_id)
    finally have "set ws = set xs" .
    with K have Kw: "\<forall>x\<in>set ws. \<forall>y\<in>set ws. (sort_compare c x y < 0) = (key x < key y)"
      by simp
    have "hd (drop start ws) = hd (drop start xs)" by (simp only: dr)
    then have nth: "ws ! start = xs ! start"
      using lt by (simp add: hd_drop_conv_nth)
    note bi = binary_insert_key [OF Kw lt(1) tk]
    have "take (start + 1) xs = take start xs @ [xs ! start]"
      using lt(2) by (simp add: take_Suc_conv_app_nth)
    then have tk': "take (start + 1) (binary_insert c ws start) = sort_key key (take (start + 1) xs)"
      using bi(1) by (simp only: nth)
    have "drop 1 (drop start ws) = drop 1 (drop start xs)" by (simp only: dr)
    then have "drop (start + 1) ws = drop (start + 1) xs"
      by (simp add: add.commute)
    then have dr': "drop (start + 1) (binary_insert c ws start) = drop (start + 1) xs"
      using bi(2) by (simp only:)
    have len': "length (binary_insert c ws start) = length xs"
      using lt len by (simp add: length_binary_insert)
    have "start + 1 \<le> high" using True by simp
    from "1.IH" [OF True K high len' this tk' dr']
    have "binary_insertion_sort c (start + 1) high (binary_insert c ws start) = sort_key key xs" .
    with True show ?thesis by (subst binary_insertion_sort.simps) simp
  qed
qed


text \<open>
  The run at the front of the array is in non-descending order of the key, or in
  strictly descending order, in which case reversing it keeps equal keys apart.
\<close>

lemma count_run_ascending:
  fixes key :: "'a \<Rightarrow> int"
  shows "(\<forall>x\<in>set (prev # rest). \<forall>y\<in>set (prev # rest). (sort_compare c x y < 0) = (key x < key y)) \<Longrightarrow>
   sorted (map key (prev # take (count_run c False prev rest) rest))"
proof (induction rest arbitrary: prev)
  case Nil
  then show ?case by simp
next
  case (Cons cur rest)
  show ?case
  proof (cases "sort_compare c cur prev < 0")
    case True
    then show ?thesis by simp
  next
    case False
    then have le: "key prev \<le> key cur" using Cons.prems by simp
    have "sorted (map key (cur # take (count_run c False cur rest) rest))"
      using Cons.prems by (intro Cons.IH) simp
    with le False show ?thesis by auto
  qed
qed

lemma count_run_descending:
  fixes key :: "'a \<Rightarrow> int"
  shows "(\<forall>x\<in>set (prev # rest). \<forall>y\<in>set (prev # rest). (sort_compare c x y < 0) = (key x < key y)) \<Longrightarrow>
   sorted_wrt (\<lambda>a b. key b < key a) (prev # take (count_run c True prev rest) rest)"
proof (induction rest arbitrary: prev)
  case Nil
  then show ?case by simp
next
  case (Cons cur rest)
  show ?case
  proof (cases "0 \<le> sort_compare c cur prev")
    case True
    then show ?thesis by simp
  next
    case False
    then have lt: "key cur < key prev" using Cons.prems by simp
    have "sorted_wrt (\<lambda>a b. key b < key a) (cur # take (count_run c True cur rest) rest)"
      using Cons.prems by (intro Cons.IH) simp
    with lt False show ?thesis by auto
  qed
qed



lemma count_and_make_run_key:
  fixes key :: "'a \<Rightarrow> int"
  assumes K: "\<forall>x\<in>set xs. \<forall>y\<in>set xs. (sort_compare c x y < 0) = (key x < key y)"
  shows "take (fst (count_and_make_run c xs)) (snd (count_and_make_run c xs))
           = sort_key key (take (fst (count_and_make_run c xs)) xs)"
    and "drop (fst (count_and_make_run c xs)) (snd (count_and_make_run c xs))
           = drop (fst (count_and_make_run c xs)) xs"
proof -
  have both: "take (fst (count_and_make_run c xs)) (snd (count_and_make_run c xs))
           = sort_key key (take (fst (count_and_make_run c xs)) xs)
        \<and> drop (fst (count_and_make_run c xs)) (snd (count_and_make_run c xs))
           = drop (fst (count_and_make_run c xs)) xs"
  proof (cases xs)
    case Nil
    then show ?thesis by (simp add: count_and_make_run_def)
  next
    case (Cons a xs')
    show ?thesis
    proof (cases xs')
      case Nil
      with Cons show ?thesis by (simp add: count_and_make_run_def)
    next
      case (Cons b rest)
      with \<open>xs = a # xs'\<close> have xs: "xs = a # b # rest" by simp
      define d where "d = (sort_compare c b a < 0)"
      define n where "n = count_run c d b rest"
      define L where "L = a # b # take n rest"
      have r: "fst (count_and_make_run c xs) = 2 + n"
        by (simp add: xs count_and_make_run_def Let_def d_def n_def)
      have tk: "take (2 + n) xs = L"
        by (simp add: xs L_def)
      have lenL: "length L = 2 + n"
        using count_run_le [of c d b rest] by (simp add: L_def n_def)
      have Kb: "\<forall>x\<in>set (b # rest). \<forall>y\<in>set (b # rest). (sort_compare c x y < 0) = (key x < key y)"
        using K by (simp add: xs)
      have ab: "(sort_compare c b a < 0) = (key b < key a)"
        using K by (simp add: xs)
      show ?thesis
      proof (cases d)
        case False
        then have snd: "snd (count_and_make_run c xs) = xs"
          by (simp add: xs count_and_make_run_def Let_def d_def)
        have "sorted (map key (b # take n rest))"
          using count_run_ascending [OF Kb] False by (simp add: n_def)
        moreover have "key a \<le> key b" using False ab by (simp add: d_def)
        ultimately have "sorted (map key L)" by (auto simp: L_def)
        then have "sort_key key L = L" by (rule sort_key_id_if_sorted)
        then show ?thesis unfolding r snd tk by simp
      next
        case True
        have n': "count_run c True b rest = n" using True by (simp add: n_def)
        have snd: "snd (count_and_make_run c xs) = rev L @ drop (2 + n) xs"
          using True by (simp add: xs count_and_make_run_def Let_def d_def [symmetric] n' L_def)
        have "sorted_wrt (\<lambda>u v. key v < key u) (b # take n rest)"
          using count_run_descending [OF Kb] True by (simp add: n_def)
        moreover have "key b < key a" using True ab by (simp add: d_def)
        ultimately have dec: "sorted_wrt (\<lambda>u v. key v < key u) L"
          by (auto simp: L_def)
        then have inc: "sorted_wrt (\<lambda>u v. key u < key v) (rev L)"
          by (simp add: sorted_wrt_rev)
        then have "sorted_wrt (<) (map key (rev L))"
          by (simp add: sorted_wrt_map)
        then have s: "sorted (map key (rev L))" and dist: "distinct (map key (rev L))"
          by (simp_all add: strict_sorted_iff)
        from dist have "inj_on key (set L)"
          by (simp add: distinct_map)
        then have "sort_key key L = rev L"
          using s by (intro sort_key_inj_key_eq) simp_all
        moreover have "take (length (rev L)) (rev L @ drop (2 + n) xs) = rev L" by simp
        moreover have "drop (length (rev L)) (rev L @ drop (2 + n) xs) = drop (2 + n) xs" by simp
        ultimately show ?thesis unfolding r snd tk using lenL by simp
      qed
    qed
  qed
  from both show "take (fst (count_and_make_run c xs)) (snd (count_and_make_run c xs))
           = sort_key key (take (fst (count_and_make_run c xs)) xs)" by blast
  from both show "drop (fst (count_and_make_run c xs)) (snd (count_and_make_run c xs))
           = drop (fst (count_and_make_run c xs)) xs" by blast
qed

text \<open>
  When the comparator agrees with the order of a key, the sort is the stable sort of
  the library on this key.
\<close>

lemma js_sort_key:
  fixes key :: "'a \<Rightarrow> int"
  assumes K: "\<forall>x\<in>set xs. \<forall>y\<in>set xs. (sort_compare c x y < 0) = (key x < key y)"
  shows "js_sort c xs = sort_key key xs"
proof (cases "length xs < 2")
  case True
  then have "xs = [] \<or> (\<exists>x. xs = [x])"
    by (cases xs) (auto simp: length_Suc_conv)
  then have "sort_key key xs = xs" by auto
  with True show ?thesis by (simp add: js_sort_def)
next
  case False
  have "binary_insertion_sort c (fst (count_and_make_run c xs)) (length xs)
          (snd (count_and_make_run c xs)) = sort_key key xs"
    using K count_and_make_run_key [OF K] count_and_make_run_mset(2,3) [of c xs]
    by (intro binary_insertion_sort_key) simp_all
  with False show ?thesis by (simp add: js_sort_def case_prod_beta)
qed

text \<open>
  When every key is a number the comparator of the views is the difference of the keys,
  and the sort is the stable sort on these keys.
\<close>

lemma js_sort_sort_key:
  assumes "\<forall>y\<in>set xs. g y \<noteq> None"
  shows "js_sort (\<lambda>a b. case g a of None \<Rightarrow> None
            | Some u \<Rightarrow> (case g b of None \<Rightarrow> None | Some v \<Rightarrow> Some (u - v))) xs
         = sort_key (\<lambda>t. the (g t)) xs"
proof (rule js_sort_key)
  show "\<forall>x\<in>set xs. \<forall>y\<in>set xs.
          (sort_compare (\<lambda>a b. case g a of None \<Rightarrow> None
            | Some u \<Rightarrow> (case g b of None \<Rightarrow> None | Some v \<Rightarrow> Some (u - v))) x y < 0)
          = (the (g x) < the (g y))"
  proof (intro ballI)
    fix x y assume "x \<in> set xs" "y \<in> set xs"
    with assms have "g x \<noteq> None" "g y \<noteq> None" by blast+
    then obtain u v where "g x = Some u" "g y = Some v" by blast
    then show "(sort_compare (\<lambda>a b. case g a of None \<Rightarrow> None
            | Some u \<Rightarrow> (case g b of None \<Rightarrow> None | Some v \<Rightarrow> Some (u - v))) x y < 0)
          = (the (g x) < the (g y))"
      by (simp add: sort_compare_def)
  qed
qed

text \<open>The equations that evaluate the sort on a given list.\<close>

lemmas sort_eval =
  js_sort_def count_and_make_run_def binary_insertion_sort.simps binary_insert_def
  bsearch.simps sort_compare_def

subsection \<open>equityCurve\<close>

lemma closedTrades_sort_key:
  assumes "\<forall>t\<in>set trades. notOpen t \<longrightarrow> getTime (timestamp t) \<noteq> None"
  shows "closedTrades getTime trades
         = sort_key (\<lambda>t. the (getTime (timestamp t))) (filter notOpen trades)"
proof -
  have "\<forall>y\<in>set (filter notOpen trades). getTime (timestamp y) \<noteq> None"
    using assms by simp
  from js_sort_sort_key [where g = "\<lambda>t. getTime (timestamp t)", OF this]
  show ?thesis by (simp add: closedTrades_def time_diff_def)
qed

lemma length_closedTrades:
  "length (closedTrades getTime trades) = length (filter notOpen trades)"
  by (simp add: closedTrades_def length_js_sort)

lemma mset_closedTrades:
  "mset (closedTrades getTime trades) = mset (filter notOpen trades)"
  by (simp add: closedTrades_def mset_js_sort)

lemma length_replay: "length (replay i b cs) = length cs"
  by (induction cs arbitrary: i b) (auto simp: Let_def)

text \<open>
  One step of the replay, read off the list of points: \<open>pt0\<close> is the point before the
  replayed trades, whose balance the replay starts from.
\<close>

lemma replay_nth:
  "k < length cs \<Longrightarrow>
   pnl ((pt0 # replay i (balance pt0) cs) ! Suc k)
     = (case actual_return_pct (cs ! k) of None \<Rightarrow> 0
        | Some r \<Rightarrow> (r / 100) * balance ((pt0 # replay i (balance pt0) cs) ! k))
   \<and> balance ((pt0 # replay i (balance pt0) cs) ! Suc k)
     = balance ((pt0 # replay i (balance pt0) cs) ! k) + pnl ((pt0 # replay i (balance pt0) cs) ! Suc k)
   \<and> time ((pt0 # replay i (balance pt0) cs) ! Suc k) = ''Trade '' @ decimal (i + k + 1)
   \<and> point_symbol ((pt0 # replay i (balance pt0) cs) ! Suc k) = Some (symbol (cs ! k))
   \<and> point_side ((pt0 # replay i (balance pt0) cs) ! Suc k) = Some (side (cs ! k))"
proof (induction cs arbitrary: i pt0 k)
  case Nil
  then show ?case by simp
next
  case (Cons c cs)
  show ?case
  proof (cases k)
    case 0
    then show ?thesis by (simp add: Let_def truthy_num_def split: option.split)
  next
    case (Suc j)
    with Cons.prems have j: "j < length cs" by simp
    define inc where "inc = (if truthy_num (actual_return_pct c)
                 then (the (actual_return_pct c) / 100) * balance pt0 else 0)"
    define p1 where "p1 = \<lparr>time = ''Trade '' @ decimal (i + 1), balance = balance pt0 + inc,
           pnl = inc, point_symbol = Some (symbol c), point_side = Some (side c)\<rparr>"
    have unfold: "replay i (balance pt0) (c # cs) = p1 # replay (i + 1) (balance p1) cs"
      by (simp add: Let_def p1_def inc_def)
    from Cons.IH [OF j, of p1 "i + 1"] show ?thesis
      unfolding unfold Suc by (simp cong: option.case_cong)
  qed
qed

lemma equityCurve_Some:
  "trades \<noteq> [] \<Longrightarrow> equityCurve getTime trades (Some p) =
     \<lparr>time = ''Start'', balance = current_balance p - total_pnl p, pnl = 0,
       point_symbol = None, point_side = None\<rparr>
     # replay 0 (current_balance p - total_pnl p) (closedTrades getTime trades)"
  by (simp add: equityCurve_def Let_def)

lemma equityCurve_steps:
  assumes "trades \<noteq> []" and "k < length (closedTrades getTime trades)"
  shows "pnl (equityCurve getTime trades (Some p) ! Suc k)
            = (case actual_return_pct (closedTrades getTime trades ! k) of None \<Rightarrow> 0
               | Some r \<Rightarrow> (r / 100) * balance (equityCurve getTime trades (Some p) ! k))"
    and "balance (equityCurve getTime trades (Some p) ! Suc k)
            = balance (equityCurve getTime trades (Some p) ! k)
              + pnl (equityCurve getTime trades (Some p) ! Suc k)"
    and "time (equityCurve getTime trades (Some p) ! Suc k) = ''Trade '' @ decimal (k + 1)"
    and "point_symbol (equityCurve getTime trades (Some p) ! Suc k)
            = Some (symbol (closedTrades getTime trades ! k))"
    and "point_side (equityCurve getTime trades (Some p) ! Suc k)
            = Some (side (closedTrades getTime trades ! k))"
proof -
  define pt0 where "pt0 = \<lparr>time = ''Start'', balance = current_balance p - total_pnl p, pnl = 0,
       point_symbol = None :: string option, point_side = None :: side option\<rparr>"
  have curve: "equityCurve getTime trades (Some p)
               = pt0 # replay 0 (balance pt0) (closedTrades getTime trades)"
    using assms(1) by (simp add: equityCurve_Some pt0_def)
  note step = replay_nth [OF assms(2), of pt0 0, folded curve]
  from step show "pnl (equityCurve getTime trades (Some p) ! Suc k)
            = (case actual_return_pct (closedTrades getTime trades ! k) of None \<Rightarrow> 0
               | Some r \<Rightarrow> (r / 100) * balance (equityCurve getTime trades (Some p) ! k))"
    by blast
  from step show "balance (equityCurve getTime trades (Some p) ! Suc k)
            = balance (equityCurve getTime trades (Some p) ! k)
              + pnl (equityCurve getTime trades (Some p) ! Suc k)"
    by blast
  from step show "time (equityCurve getTime trades (Some p) ! Suc k) = ''Trade '' @ decimal (k + 1)"
    by simp
  from step show "point_symbol (equityCurve getTime trades (Some p) ! Suc k)
            = Some (symbol (closedTrades getTime trades ! k))"
    by blast
  from step show "point_side (equityCurve getTime trades (Some p) ! Suc k)
            = Some (side (closedTrades getTime trades ! k))"
    by blast
qed

lemma closedTrades_sorted_stable:
  assumes "\<forall>t\<in>set trades. trade_status t \<noteq> ''OPEN'' \<longrightarrow> getTime (timestamp t) \<noteq> None"
  shows "sorted (map (\<lambda>t. the (getTime (timestamp t))) (closedTrades getTime trades))"
    and "filter (\<lambda>t. the (getTime (timestamp t)) = k) (closedTrades getTime trades)
         = filter (\<lambda>t. the (getTime (timestamp t)) = k)
             (filter (\<lambda>t. trade_status t \<noteq> ''OPEN'') trades)"
proof -
  from assms have "\<forall>t\<in>set trades. notOpen t \<longrightarrow> getTime (timestamp t) \<noteq> None"
    by (simp add: notOpen_def)
  then have eq: "closedTrades getTime trades
         = sort_key (\<lambda>t. the (getTime (timestamp t))) (filter notOpen trades)"
    by (rule closedTrades_sort_key)
  show "sorted (map (\<lambda>t. the (getTime (timestamp t))) (closedTrades getTime trades))"
    unfolding eq by (rule sorted_sort_key)
  have f: "filter notOpen trades = filter (\<lambda>t. trade_status t \<noteq> ''OPEN'') trades"
    by (simp add: notOpen_def [abs_def])
  show "filter (\<lambda>t. the (getTime (timestamp t)) = k) (closedTrades getTime trades)
         = filter (\<lambda>t. the (getTime (timestamp t)) = k)
             (filter (\<lambda>t. trade_status t \<noteq> ''OPEN'') trades)"
    unfolding eq f by (rule sort_key_stable)
qed

lemma closedTrades_permutation:
  "mset (closedTrades getTime trades) = mset (filter (\<lambda>t. trade_status t \<noteq> ''OPEN'') trades)"
  by (simp add: mset_closedTrades notOpen_def [abs_def])

lemma equityCurve_shape:
  assumes "trades \<noteq> []"
  shows "length (equityCurve getTime trades (Some p)) = Suc (length (closedTrades getTime trades))"
    and "time (equityCurve getTime trades (Some p) ! 0) = ''Start''"
    and "balance (equityCurve getTime trades (Some p) ! 0) = current_balance p - total_pnl p"
    and "pnl (equityCurve getTime trades (Some p) ! 0) = 0"
  using assms by (simp_all add: equityCurve_Some length_replay)

text \<open>
  Claim C1, as stated, fails where it says that the closed trades are taken in sorted
  order. Of three closed trades, the first opened on 1 March, the second with a
  timestamp that is not a date and the third opened on 1 January, the curve replays
  the March trade first (increment 1000, 10 per cent of 10000) and the January trade
  last (increment -363, -3 per cent of 12100): every comparison with the unparsable
  timestamp gives NaN, and the sort leaves the array as it is.
\<close>

theorem equityCurve_sorted_counterexample:
  "sample_getTime (timestamp sample_win) = Some 1709283600000
   \<and> sample_getTime (timestamp sample_bad) = None
   \<and> sample_getTime (timestamp sample_loss) = Some 1704128400000
   \<and> actual_return_pct sample_win = Some 10
   \<and> actual_return_pct sample_bad = Some 10
   \<and> actual_return_pct sample_loss = Some (- 3)
   \<and> map pnl (equityCurve sample_getTime [sample_win, sample_bad, sample_loss] (Some sample_perf))
       = [0, 1000, 1100, - 363]
   \<and> map balance (equityCurve sample_getTime [sample_win, sample_bad, sample_loss] (Some sample_perf))
       = [10000, 11000, 12100, 11737]"
  by (simp add: equityCurve_def closedTrades_def notOpen_def sample_win_def sample_bad_def
      sample_loss_def sample_open_def sample_perf_def sample_getTime_def time_diff_def sort_eval
      truthy_num_def Let_def)

text \<open>
  Claim C1, amended. For a non-empty trades list and a present performance snapshot the
  curve starts with a point labelled Start, whose balance is the current balance minus
  the total P&L and whose increment is 0. It then has one point for each trade whose
  status is not OPEN, the trades being taken in the order in which the sort leaves
  them: a permutation of these trades, which is the increasing order of their
  timestamps, trades of equal time in input order, when the timestamp of each of them
  is a date. The increment of a point is the trade's return percentage divided by 100
  times the balance of the point before (0 when the trade has no return percentage),
  its balance is the balance before plus this increment, and it carries the label
  Trade N and the trade's symbol and side. With current balance 11000, total P&L 1000,
  a CLOSED_WIN trade returning 10 per cent and an OPEN trade, the curve is Start at
  10000, then Trade 1 at 11000 with increment 1000.
\<close>

theorem equityCurve_replay:
  "(trades \<noteq> [] \<longrightarrow>
     (let cs = closedTrades getTime trades; curve = equityCurve getTime trades (Some p)
      in mset cs = mset (filter (\<lambda>t. trade_status t \<noteq> ''OPEN'') trades)
         \<and> ((\<forall>t\<in>set trades. trade_status t \<noteq> ''OPEN'' \<longrightarrow> getTime (timestamp t) \<noteq> None) \<longrightarrow>
              sorted (map (\<lambda>t. the (getTime (timestamp t))) cs)
              \<and> (\<forall>k. filter (\<lambda>t. the (getTime (timestamp t)) = k) cs
                     = filter (\<lambda>t. the (getTime (timestamp t)) = k)
                         (filter (\<lambda>t. trade_status t \<noteq> ''OPEN'') trades)))
         \<and> length curve = Suc (length cs)
         \<and> time (curve ! 0) = ''Start''
         \<and> balance (curve ! 0) = current_balance p - total_pnl p
         \<and> pnl (curve ! 0) = 0
         \<and> (\<forall>k < length cs.
              pnl (curve ! Suc k)
                = (case actual_return_pct (cs ! k) of None \<Rightarrow> 0
                   | Some r \<Rightarrow> (r / 100) * balance (curve ! k))
              \<and> balance (curve ! Suc k) = balance (curve ! k) + pnl (curve ! Suc k)
              \<and> time (curve ! Suc k) = ''Trade '' @ decimal (k + 1)
              \<and> point_symbol (curve ! Suc k) = Some (symbol (cs ! k))
              \<and> point_side (curve ! Suc k) = Some (side (cs ! k)))))
   \<and> (current_balance q = 11000 \<and> total_pnl q = 1000
      \<and> trade_status w = ''CLOSED_WIN'' \<and> actual_return_pct w = Some 10
      \<and> trade_status o' = ''OPEN'' \<longrightarrow>
      map (\<lambda>pt. (time pt, balance pt, pnl pt)) (equityCurve getTime [w, o'] (Some q))
        = [(''Start'', 10000, 0), (''Trade 1'', 11000, 1000)])"
  (is "(_ \<longrightarrow> ?replay) \<and> (_ \<longrightarrow> ?scenario)")
proof (intro conjI impI)
  assume ne: "trades \<noteq> []"
  note perm = closedTrades_permutation [of getTime trades]
  have ord: "sorted (map (\<lambda>t. the (getTime (timestamp t))) (closedTrades getTime trades))
              \<and> (\<forall>k. filter (\<lambda>t. the (getTime (timestamp t)) = k) (closedTrades getTime trades)
                     = filter (\<lambda>t. the (getTime (timestamp t)) = k)
                         (filter (\<lambda>t. trade_status t \<noteq> ''OPEN'') trades))"
    if "\<forall>t\<in>set trades. trade_status t \<noteq> ''OPEN'' \<longrightarrow> getTime (timestamp t) \<noteq> None"
    using closedTrades_sorted_stable [OF that] by blast
  note shape = equityCurve_shape [OF ne, of getTime p]
  note steps = equityCurve_steps [OF ne, of _ getTime p]
  show ?replay
    unfolding Let_def
  proof (intro conjI)
    show "\<forall>k<length (closedTrades getTime trades).
       pnl (equityCurve getTime trades (Some p) ! Suc k) =
       (case actual_return_pct (closedTrades getTime trades ! k) of None \<Rightarrow> 0
        | Some r \<Rightarrow> r / 100 * balance (equityCurve getTime trades (Some p) ! k)) \<and>
       balance (equityCurve getTime trades (Some p) ! Suc k) =
       balance (equityCurve getTime trades (Some p) ! k) +
       pnl (equityCurve getTime trades (Some p) ! Suc k) \<and>
       time (equityCurve getTime trades (Some p) ! Suc k) = ''Trade '' @ decimal (k + 1) \<and>
       point_symbol (equityCurve getTime trades (Some p) ! Suc k) =
       Some (symbol (closedTrades getTime trades ! k)) \<and>
       point_side (equityCurve getTime trades (Some p) ! Suc k) =
       Some (side (closedTrades getTime trades ! k))"
      using steps by blast
  qed (use perm ord shape in blast)+
next
  assume "current_balance q = 11000 \<and> total_pnl q = 1000
      \<and> trade_status w = ''CLOSED_WIN'' \<and> actual_return_pct w = Some 10
      \<and> trade_status o' = ''OPEN''"
  then show ?scenario
    by (simp add: equityCurve_def closedTrades_def notOpen_def truthy_num_def
        decimal.simps digit_char_def js_sort_def Let_def)
qed

theorem equityCurve_replay_witness:
  "[sample_win, sample_open, sample_loss] \<noteq> []
   \<and> sample_getTime (timestamp sample_win) = Some 1709283600000
   \<and> sample_getTime (timestamp sample_loss) = Some 1704128400000
   \<and> map trade_id (closedTrades sample_getTime [sample_win, sample_open, sample_loss])
       = [trade_id sample_loss, trade_id sample_win]
   \<and> map (\<lambda>pt. (time pt, balance pt, pnl pt))
        (equityCurve sample_getTime [sample_win, sample_open, sample_loss] (Some sample_perf))
        = [(''Start'', 10000, 0), (''Trade 1'', 9700, - 300), (''Trade 2'', 10670, 970)]
   \<and> current_balance sample_perf = 11000 \<and> total_pnl sample_perf = 1000
   \<and> trade_status sample_win = ''CLOSED_WIN'' \<and> actual_return_pct sample_win = Some 10
   \<and> trade_status sample_open = ''OPEN''
   \<and> map (\<lambda>pt. (time pt, balance pt, pnl pt))
        (equityCurve sample_getTime [sample_win, sample_open] (Some sample_perf))
        = [(''Start'', 10000, 0), (''Trade 1'', 11000, 1000)]"
  using equityCurve_replay [of "[sample_win, sample_open, sample_loss]" sample_getTime sample_perf
      sample_perf sample_win sample_open]
  by (simp add: equityCurve_def closedTrades_def notOpen_def sample_win_def sample_open_def
      sample_loss_def sample_perf_def sample_getTime_def time_diff_def sort_eval truthy_num_def
      decimal.simps digit_char_def Let_def)

text \<open>
  Claim C3. The curve is empty when the trades list is empty or the performance
  snapshot is absent; for a non-empty list and a present snapshot its length is one
  plus the number of trades whose status is not OPEN.
\<close>

theorem equityCurve_length:
  "(trades = [] \<or> performance = None \<longrightarrow> equityCurve getTime trades performance = [])
   \<and> (trades \<noteq> [] \<longrightarrow>
        length (equityCurve getTime trades (Some p))
          = 1 + length (filter (\<lambda>t. trade_status t \<noteq> ''OPEN'') trades))"
proof (intro conjI impI)
  assume "trades = [] \<or> performance = None"
  then show "equityCurve getTime trades performance = []"
    by (auto simp: equityCurve_def)
next
  assume ne: "trades \<noteq> []"
  have "filter notOpen trades = filter (\<lambda>t. trade_status t \<noteq> ''OPEN'') trades"
    by (simp add: notOpen_def [abs_def])
  then show "length (equityCurve getTime trades (Some p))
          = 1 + length (filter (\<lambda>t. trade_status t \<noteq> ''OPEN'') trades)"
    using ne by (simp add: equityCurve_Some length_replay length_closedTrades)
qed

theorem equityCurve_length_witness:
  "equityCurve sample_getTime [] (Some sample_perf) = []
   \<and> equityCurve sample_getTime [sample_win, sample_open] None = []
   \<and> [sample_win, sample_open] \<noteq> []
   \<and> length (equityCurve sample_getTime [sample_win, sample_open] (Some sample_perf)) = 2"
  using equityCurve_length [of "[]" "Some sample_perf" sample_getTime]
    equityCurve_length [of "[sample_win, sample_open]" None sample_getTime sample_perf]
  by (simp add: sample_win_def sample_open_def)

text \<open>
  Claim C4, as stated, fails: with a closed trade whose timestamp is not a date between
  them, a trade opened on 1 March is replayed before a trade opened on 1 January.
\<close>

theorem closedTrades_order_counterexample:
  "sample_getTime (timestamp sample_tie) = Some 1709283600000
   \<and> sample_getTime (timestamp sample_bad_sol) = None
   \<and> sample_getTime (timestamp sample_loss) = Some 1704128400000
   \<and> map trade_id (closedTrades sample_getTime [sample_tie, sample_bad_sol, sample_loss])
       = [trade_id sample_tie, trade_id sample_bad_sol, trade_id sample_loss]
   \<and> map point_symbol
        (equityCurve sample_getTime [sample_tie, sample_bad_sol, sample_loss] (Some sample_perf))
       = [None, Some (symbol sample_tie), Some (symbol sample_bad_sol), Some (symbol sample_loss)]
   \<and> symbol sample_tie = ''ETHUSDT'' \<and> symbol sample_bad_sol = ''SOLUSDT''
   \<and> symbol sample_loss = ''BTCUSDT''"
  by (simp add: equityCurve_def closedTrades_def notOpen_def sample_tie_def sample_bad_sol_def
      sample_bad_def sample_win_def sample_loss_def sample_open_def sample_perf_def
      sample_getTime_def time_diff_def sort_eval truthy_num_def Let_def)

text \<open>
  Claim C4, amended. When the timestamp of every trade whose status is not OPEN is a
  date, the curve replays these trades by increasing time of the field \<^verbatim>\<open>timestamp\<close>
  (the exit timestamp plays no part), trades of equal time keeping the order they have
  in the input: the point after the k-th point of the curve carries the symbol and
  the side of the k-th trade in this order and the increment computed from its return.
\<close>

theorem closedTrades_order:
  "(\<forall>t\<in>set trades. trade_status t \<noteq> ''OPEN'' \<longrightarrow> getTime (timestamp t) \<noteq> None) \<longrightarrow>
     (let cs = closedTrades getTime trades; curve = equityCurve getTime trades (Some p)
      in sorted (map (\<lambda>t. the (getTime (timestamp t))) cs)
         \<and> (\<forall>k. filter (\<lambda>t. the (getTime (timestamp t)) = k) cs
                = filter (\<lambda>t. the (getTime (timestamp t)) = k)
                    (filter (\<lambda>t. trade_status t \<noteq> ''OPEN'') trades))
         \<and> (trades \<noteq> [] \<longrightarrow>
              length curve = Suc (length cs)
              \<and> (\<forall>k < length cs.
                   point_symbol (curve ! Suc k) = Some (symbol (cs ! k))
                   \<and> point_side (curve ! Suc k) = Some (side (cs ! k))
                   \<and> pnl (curve ! Suc k)
                       = (case actual_return_pct (cs ! k) of None \<Rightarrow> 0
                          | Some r \<Rightarrow> (r / 100) * balance (curve ! k)))))"
  (is "_ \<longrightarrow> ?order")
proof
  assume ok: "\<forall>t\<in>set trades. trade_status t \<noteq> ''OPEN'' \<longrightarrow> getTime (timestamp t) \<noteq> None"
  note srt = closedTrades_sorted_stable(1) [OF ok]
  note stable = closedTrades_sorted_stable(2) [OF ok]
  have curve: "length (equityCurve getTime trades (Some p)) = Suc (length (closedTrades getTime trades))
      \<and> (\<forall>k < length (closedTrades getTime trades).
           point_symbol (equityCurve getTime trades (Some p) ! Suc k)
             = Some (symbol (closedTrades getTime trades ! k))
           \<and> point_side (equityCurve getTime trades (Some p) ! Suc k)
             = Some (side (closedTrades getTime trades ! k))
           \<and> pnl (equityCurve getTime trades (Some p) ! Suc k)
             = (case actual_return_pct (closedTrades getTime trades ! k) of None \<Rightarrow> 0
                | Some r \<Rightarrow> (r / 100) * balance (equityCurve getTime trades (Some p) ! k)))"
    if ne: "trades \<noteq> []"
    using equityCurve_shape(1) [OF ne, of getTime p] equityCurve_steps(1,4,5) [OF ne, of _ getTime p]
    by blast
  show ?order
    unfolding Let_def using srt stable curve by blast
qed

theorem closedTrades_order_witness:
  "sample_getTime (timestamp sample_win) = Some 1709283600000
   \<and> sample_getTime (timestamp sample_tie) = Some 1709283600000
   \<and> sample_getTime (timestamp sample_loss) = Some 1704128400000
   \<and> map trade_id (closedTrades sample_getTime [sample_win, sample_tie, sample_open, sample_loss])
       = [''T-0'', ''T-1'', ''T-3'']
   \<and> map exit_timestamp (closedTrades sample_getTime [sample_win, sample_tie, sample_open, sample_loss])
       = [Some ''2024-03-02T09:00:00Z'', Some ''2024-03-01T17:00:00Z'', Some ''2024-03-01T17:00:00Z'']
   \<and> map point_symbol
        (equityCurve sample_getTime [sample_win, sample_tie, sample_open, sample_loss] (Some sample_perf))
       = [None, Some ''BTCUSDT'', Some ''BTCUSDT'', Some ''ETHUSDT'']
   \<and> map pnl
        (equityCurve sample_getTime [sample_win, sample_tie, sample_open, sample_loss] (Some sample_perf))
       = [0, - 300, 970, 1067]"
  using closedTrades_order [of "[sample_win, sample_tie, sample_open, sample_loss]" sample_getTime sample_perf]
  by (simp add: equityCurve_def closedTrades_def notOpen_def sample_win_def sample_tie_def
      sample_open_def sample_loss_def sample_perf_def sample_getTime_def time_diff_def sort_eval
      truthy_num_def Let_def)

text \<open>
  Claim C7, as stated, fails: a closed trade whose return is 0 leaves the balance
  unchanged, so two consecutive balances are equal.
\<close>

theorem equityCurve_strict_counterexample:
  "\<not> strictly_ordered (map balance (equityCurve sample_getTime [sample_flat] (Some sample_perf)))"
  by (simp add: equityCurve_def closedTrades_def notOpen_def sample_flat_def sample_win_def sample_open_def
      sample_perf_def truthy_num_def js_sort_def Let_def)

text \<open>
  Claim C7, amended. In a non-empty curve each balance is the balance before compounded
  by the return of the trade replayed: the balance before plus the trade's return
  percentage over 100 times the balance before, and the balance before itself when the
  trade has no return percentage. Consecutive balances are ordered, but not strictly:
  the balance does not fall when the increment is not negative, does not rise when the
  increment is not positive, and is repeated when the return is absent or 0.
\<close>

theorem equityCurve_compounding:
  "trades \<noteq> [] \<longrightarrow>
     (let cs = closedTrades getTime trades; curve = equityCurve getTime trades (Some p)
      in mset cs = mset (filter (\<lambda>t. trade_status t \<noteq> ''OPEN'') trades)
         \<and> length curve = Suc (length cs)
         \<and> (\<forall>k < length cs.
              balance (curve ! Suc k)
                = balance (curve ! k)
                  + (case actual_return_pct (cs ! k) of None \<Rightarrow> 0
                     | Some r \<Rightarrow> (r / 100) * balance (curve ! k))
              \<and> (actual_return_pct (cs ! k) = None \<or> actual_return_pct (cs ! k) = Some 0 \<longrightarrow>
                   balance (curve ! Suc k) = balance (curve ! k))
              \<and> (0 \<le> pnl (curve ! Suc k) \<longrightarrow> balance (curve ! k) \<le> balance (curve ! Suc k))
              \<and> (pnl (curve ! Suc k) \<le> 0 \<longrightarrow> balance (curve ! Suc k) \<le> balance (curve ! k))))"
  (is "_ \<longrightarrow> ?compounding")
proof
  assume ne: "trades \<noteq> []"
  have step: "balance (equityCurve getTime trades (Some p) ! Suc k)
                = balance (equityCurve getTime trades (Some p) ! k)
                  + (case actual_return_pct (closedTrades getTime trades ! k) of None \<Rightarrow> 0
                     | Some r \<Rightarrow> (r / 100) * balance (equityCurve getTime trades (Some p) ! k))
              \<and> (actual_return_pct (closedTrades getTime trades ! k) = None
                  \<or> actual_return_pct (closedTrades getTime trades ! k) = Some 0 \<longrightarrow>
                   balance (equityCurve getTime trades (Some p) ! Suc k)
                     = balance (equityCurve getTime trades (Some p) ! k))
              \<and> (0 \<le> pnl (equityCurve getTime trades (Some p) ! Suc k) \<longrightarrow>
                   balance (equityCurve getTime trades (Some p) ! k)
                     \<le> balance (equityCurve getTime trades (Some p) ! Suc k))
              \<and> (pnl (equityCurve getTime trades (Some p) ! Suc k) \<le> 0 \<longrightarrow>
                   balance (equityCurve getTime trades (Some p) ! Suc k)
                     \<le> balance (equityCurve getTime trades (Some p) ! k))"
    if k: "k < length (closedTrades getTime trades)" for k
  proof -
    define b where "b = balance (equityCurve getTime trades (Some p) ! k)"
    define x where "x = pnl (equityCurve getTime trades (Some p) ! Suc k)"
    have b': "balance (equityCurve getTime trades (Some p) ! Suc k) = b + x"
      using equityCurve_steps(2) [OF ne k, of p] by (simp add: b_def x_def)
    have x: "x = (case actual_return_pct (closedTrades getTime trades ! k) of None \<Rightarrow> 0
               | Some r \<Rightarrow> (r / 100) * b)"
      using equityCurve_steps(1) [OF ne k, of p] by (simp add: b_def x_def cong: option.case_cong)
    have zero: "x = 0" if "actual_return_pct (closedTrades getTime trades ! k) = None
                  \<or> actual_return_pct (closedTrades getTime trades ! k) = Some 0"
      using that unfolding x by auto
    show ?thesis
      unfolding b' b_def [symmetric] x_def [symmetric] using x zero by simp
  qed
  show ?compounding
    unfolding Let_def
    using closedTrades_permutation [of getTime trades] equityCurve_shape(1) [OF ne, of getTime p] step
    by blast
qed

theorem equityCurve_compounding_witness:
  "[sample_loss, sample_win, sample_flat] \<noteq> []
   \<and> map balance (equityCurve sample_getTime [sample_loss, sample_win, sample_flat] (Some sample_perf))
       = [10000, 9700, 10670, 10670]
   \<and> map pnl (equityCurve sample_getTime [sample_loss, sample_win, sample_flat] (Some sample_perf))
       = [0, - 300, 970, 0]"
  using equityCurve_compounding [of "[sample_loss, sample_win, sample_flat]" sample_getTime sample_perf]
  by (simp add: equityCurve_def closedTrades_def notOpen_def sample_win_def sample_open_def
      sample_loss_def sample_flat_def sample_perf_def sample_getTime_def time_diff_def sort_eval
      truthy_num_def Let_def)

subsection \<open>Dictionaries\<close>

lemma or_zero_case: "or_zero v = (case v of None \<Rightarrow> 0 | Some r \<Rightarrow> r)"
  by (simp add: or_zero_def truthy_num_def split: option.split)

lemma mset_object_entries: "mset (object_entries props) = mset props"
  by (simp add: object_entries_def)

lemma set_object_entries: "set (object_entries props) = set props"
  using mset_object_entries [of props] by (metis set_mset_mset)

lemma filter_key_notin: "k \<notin> f ` set ts \<Longrightarrow> filter (\<lambda>t. f t = k) ts = []"
  by (auto simp: filter_empty_conv)

subsection \<open>symbolPerformance\<close>

text \<open>Whatever the trades, every row has win rate 0.\<close>

lemma symbolPerformance_winRate_zero: "st \<in> set (symbolPerformance trades) \<Longrightarrow> winRate st = 0"
  by (auto simp: symbolPerformance_def symbolRows_def gt_zero_def stats_total_def stats.extend_def)

text \<open>
  Claim C2 does not hold of the code. For one CLOSED_WIN trade returning 5 and one
  CLOSED_LOSS trade returning -3 on the same symbol the entry has wins 1, losses 1,
  total 2 and totalPnL 2, but its winRate is 0 and not 50: the test \<^verbatim>\<open>stats.total > 0\<close>
  reads a property that the accumulated object does not have.
\<close>

theorem symbolPerformance_scenario:
  "symbolPerformance [sample_win5, sample_loss]
   = [\<lparr>wins = 1, losses = 1, totalPnL = 2, stat_symbol = ''BTCUSDT'', total' = 2, winRate = 0\<rparr>]"
  by (simp add: symbolPerformance_def symbolRows_def symbol_step_def object_entries_def array_index_def
      digit_of_def sample_win5_def sample_win_def sample_loss_def sample_open_def notOpen_def
      or_zero_def truthy_num_def gt_zero_def stats_total_def stats.extend_def Let_def)

subsection \<open>dailyPnL\<close>

lemma daily_step_map_of:
  "map_of (daily_step getTime dayOf R t) d =
     (if d = toDateString getTime dayOf (the (exit_timestamp t))
      then Some ((case map_of R d of None \<Rightarrow> 0 | Some v \<Rightarrow> v) + or_zero (actual_return_pct t))
      else map_of R d)"
  by (auto simp: daily_step_def Let_def AList.update_conv' truthy_num_def split: option.splits)

lemma daily_step_distinct:
  "distinct (map fst R) \<Longrightarrow> distinct (map fst (daily_step getTime dayOf R t))"
  by (simp add: daily_step_def Let_def AList.distinct_update)

text \<open>
  The dictionary after the loop: its keys are the days of the trades seen, each once,
  and the value of a day is the sum of the returns of the trades of that day.
\<close>

lemma daily_fold:
  "distinct (map fst (foldl (daily_step getTime dayOf) [] ts))
   \<and> (\<forall>d. map_of (foldl (daily_step getTime dayOf) [] ts) d =
        (if d \<in> (\<lambda>t. toDateString getTime dayOf (the (exit_timestamp t))) ` set ts
         then Some (sum_list (map (\<lambda>t. or_zero (actual_return_pct t))
                (filter (\<lambda>t. toDateString getTime dayOf (the (exit_timestamp t)) = d) ts)))
         else None))"
proof (induction ts rule: rev_induct)
  case Nil
  then show ?case by simp
next
  case (snoc t ts)
  then show ?case
    by (auto simp: daily_step_map_of daily_step_distinct filter_key_notin)
qed

lemma dailyPnL_facts:
  fixes getTime dayOf trades
  defines "day \<equiv> \<lambda>t::TradeEntry. toDateString getTime dayOf (the (exit_timestamp t))"
  shows "set (map date (dailyPnL getTime dayOf trades)) = day ` set (filter hasExit trades)"
    and "distinct (map date (dailyPnL getTime dayOf trades))"
    and "e \<in> set (dailyPnL getTime dayOf trades) \<Longrightarrow>
         daily_pnl e = sum_list (map (\<lambda>t. or_zero (actual_return_pct t))
                                  (filter (\<lambda>t. day t = date e) (filter hasExit trades)))"
    and "\<forall>t\<in>set (filter hasExit trades). getTime (day t) \<noteq> None \<Longrightarrow>
         sorted (map (\<lambda>e. the (getTime (date e))) (dailyPnL getTime dayOf trades))"
proof -
  define adm where "adm = filter hasExit trades"
  define R where "R = foldl (daily_step getTime dayOf) [] adm"
  define es where "es = map (\<lambda>(d, v). \<lparr>date = d, daily_pnl = v\<rparr>) (object_entries R)"
  define out where "out = dailyPnL getTime dayOf trades"
  have out: "out = js_sort (\<lambda>a b. time_diff getTime (date a) (date b)) es"
    by (simp add: out_def dailyPnL_def dailyRows_def adm_def es_def R_def)
  have distR: "distinct (map fst R)"
    and lookR: "map_of R d = (if d \<in> day ` set adm
         then Some (sum_list (map (\<lambda>t. or_zero (actual_return_pct t)) (filter (\<lambda>t. day t = d) adm)))
         else None)" for d
    using daily_fold [of getTime dayOf adm] by (simp_all add: R_def day_def)
  have dates_es: "map date es = map fst (object_entries R)"
    by (simp add: es_def case_prod_beta)
  have mset_out: "mset out = mset es"
    by (simp add: out mset_js_sort)
  have "mset (map date out) = mset (map fst R)"
    using mset_out dates_es by (metis mset_map mset_object_entries)
  then have keys: "set (map date out) = fst ` set R" and dist: "distinct (map date out)"
    using distR by (metis set_map set_mset_mset, metis mset_eq_imp_distinct_iff)
  have "dom (map_of R) = day ` set adm"
    by (auto simp: dom_def lookR)
  then have domR: "fst ` set R = day ` set adm"
    by (simp add: dom_map_of_conv_image_fst)
  show "set (map date (dailyPnL getTime dayOf trades)) = day ` set (filter hasExit trades)"
    using keys domR by (simp add: out_def adm_def)
  show "distinct (map date (dailyPnL getTime dayOf trades))"
    using dist by (simp add: out_def)
  show "daily_pnl e = sum_list (map (\<lambda>t. or_zero (actual_return_pct t))
                                  (filter (\<lambda>t. day t = date e) (filter hasExit trades)))"
    if "e \<in> set (dailyPnL getTime dayOf trades)"
  proof -
    from that have "e \<in> set es"
      using mset_out by (metis out_def set_mset_mset)
    then have "(date e, daily_pnl e) \<in> set R"
      by (auto simp: es_def set_object_entries)
    then have "map_of R (date e) = Some (daily_pnl e)"
      using distR by simp
    then show ?thesis
      by (simp add: lookR adm_def split: if_splits)
  qed
  show "sorted (map (\<lambda>e. the (getTime (date e))) (dailyPnL getTime dayOf trades))"
    if ok: "\<forall>t\<in>set (filter hasExit trades). getTime (day t) \<noteq> None"
  proof -
    have "\<forall>e\<in>set es. getTime (date e) \<noteq> None"
    proof
      fix e assume "e \<in> set es"
      then have "date e \<in> fst ` set R"
        by (force simp: es_def set_object_entries)
      then show "getTime (date e) \<noteq> None"
        using ok domR by (auto simp: adm_def)
    qed
    from js_sort_sort_key [where g = "\<lambda>e. getTime (date e)", OF this]
    have "out = sort_key (\<lambda>e. the (getTime (date e))) es"
      by (simp add: out time_diff_def)
    then show ?thesis by (simp add: out_def)
  qed
qed

lemma filter_hasExit:
  "filter hasExit trades
   = filter (\<lambda>t. trade_status t \<noteq> ''OPEN'' \<and> exit_timestamp t \<noteq> None
                 \<and> exit_timestamp t \<noteq> Some []) trades"
  unfolding hasExit_def [abs_def] notOpen_def truthy_str_def
  by (rule filter_cong) (auto split: option.splits)

text \<open>
  Claim C5, as stated, fails where it says that the output is in chronological order.
  Of three closed trades, the first closed on 1 March, the second with an exit
  timestamp that is not a date and the third closed on 1 January, the series has the
  entry of 1 March first, then an entry dated \<^verbatim>\<open>Invalid Date\<close>, then the entry of
  1 January: every comparison with \<^verbatim>\<open>Invalid Date\<close> gives NaN, and the sort leaves
  the entries in the order in which the days were met.
\<close>

theorem dailyPnL_order_counterexample:
  "dailyPnL sample_getTime sample_dayOf [sample_win, sample_bad, sample_jan]
     = [\<lparr>date = ''Fri Mar 01 2024'', daily_pnl = 10\<rparr>,
        \<lparr>date = ''Invalid Date'', daily_pnl = 10\<rparr>,
        \<lparr>date = ''Mon Jan 01 2024'', daily_pnl = 4\<rparr>]
   \<and> sample_getTime ''Fri Mar 01 2024'' = Some 1709251200000
   \<and> sample_getTime ''Invalid Date'' = None
   \<and> sample_getTime ''Mon Jan 01 2024'' = Some 1704067200000"
  by (simp add: dailyPnL_def dailyRows_def daily_step_def object_entries_def array_index_def
      digit_of_def hasExit_def notOpen_def truthy_str_def truthy_num_def or_zero_def
      toDateString_def sample_win_def sample_bad_def sample_jan_def sample_open_def
      sample_getTime_def sample_dayOf_def time_diff_def sort_eval Let_def)

text \<open>
  Claim C5, amended. The entries of the daily series come from the trades whose status
  is not OPEN and whose exit timestamp is present (and not the empty string) only: the
  dates of the entries are the days of these trades, each once, so a closed trade
  without exit timestamp contributes no entry; the value of a day is the sum of the
  return percentages of the trades of that day, an absent one counting as 0; and, when
  the day of each of these trades is a date (which \<^verbatim>\<open>Invalid Date\<close>, the day of an
  unparsable exit timestamp, is not), the entries are in increasing order of the time
  of their day, which is not the lexical order of the strings.
\<close>

theorem dailyPnL_entries:
  "(let day = (\<lambda>t. toDateString getTime dayOf (the (exit_timestamp t)));
        adm = filter (\<lambda>t. trade_status t \<noteq> ''OPEN'' \<and> exit_timestamp t \<noteq> None
                           \<and> exit_timestamp t \<noteq> Some []) trades;
        out = dailyPnL getTime dayOf trades
    in set (map date out) = day ` set adm
       \<and> distinct (map date out)
       \<and> (\<forall>e\<in>set out.
            daily_pnl e = sum_list (map (\<lambda>t. case actual_return_pct t of None \<Rightarrow> 0 | Some r \<Rightarrow> r)
                                     (filter (\<lambda>t. day t = date e) adm)))
       \<and> ((\<forall>t\<in>set adm. getTime (day t) \<noteq> None) \<longrightarrow>
            sorted (map (\<lambda>e. the (getTime (date e))) out)))"
  unfolding Let_def filter_hasExit [symmetric] or_zero_case [symmetric]
  using dailyPnL_facts [where getTime = getTime and dayOf = dayOf and trades = trades] by blast

theorem dailyPnL_entries_witness:
  "map (\<lambda>t. sample_getTime (toDateString sample_getTime sample_dayOf (the (exit_timestamp t))))
       [sample_win, sample_tie, sample_loss, sample_jan]
     = [Some 1709251200000, Some 1709251200000, Some 1709337600000, Some 1704067200000]
   \<and> dailyPnL sample_getTime sample_dayOf
       [sample_win, sample_tie, sample_noexit, sample_loss, sample_open, sample_jan]
     = [\<lparr>date = ''Mon Jan 01 2024'', daily_pnl = 4\<rparr>,
        \<lparr>date = ''Fri Mar 01 2024'', daily_pnl = 20\<rparr>,
        \<lparr>date = ''Sat Mar 02 2024'', daily_pnl = - 3\<rparr>]
   \<and> \<not> sorted (map date (dailyPnL sample_getTime sample_dayOf
       [sample_win, sample_tie, sample_noexit, sample_loss, sample_open, sample_jan]))"
  using dailyPnL_entries [of sample_getTime sample_dayOf
      "[sample_win, sample_tie, sample_noexit, sample_loss, sample_open, sample_jan]"]
  by (simp add: dailyPnL_def dailyRows_def daily_step_def object_entries_def array_index_def digit_of_def
      hasExit_def notOpen_def truthy_str_def truthy_num_def or_zero_def toDateString_def
      sample_win_def sample_tie_def sample_noexit_def sample_loss_def sample_open_def sample_jan_def
      sample_getTime_def sample_dayOf_def time_diff_def sort_eval Let_def
      less_eq_char_def less_char_def list_le_def)

subsection \<open>Unparsable timestamps\<close>

lemma replay_symbols: "map point_symbol (replay i b cs) = map (\<lambda>t. Some (symbol t)) cs"
  by (induction cs arbitrary: i b) (auto simp: Let_def)

text \<open>
  Claim C8, as stated, fails: a closed trade whose timestamp and exit timestamp are not
  dates still has its point on the curve, and the daily series has an entry for it
  under the key \<^verbatim>\<open>Invalid Date\<close>.
\<close>

theorem malformed_timestamp_counterexample:
  "sample_getTime (timestamp sample_bad) = None
   \<and> exit_timestamp sample_bad = Some ''not a date'' \<and> sample_getTime ''not a date'' = None
   \<and> map point_symbol (equityCurve sample_getTime [sample_bad] (Some sample_perf))
       = [None, Some (symbol sample_bad)]
   \<and> dailyPnL sample_getTime sample_dayOf [sample_bad]
       = [\<lparr>date = ''Invalid Date'', daily_pnl = 10\<rparr>]"
  by (simp add: equityCurve_def closedTrades_def dailyPnL_def dailyRows_def daily_step_def object_entries_def
      array_index_def digit_of_def hasExit_def notOpen_def truthy_str_def truthy_num_def
      or_zero_def toDateString_def sample_bad_def sample_win_def sample_open_def
      sample_perf_def sample_getTime_def js_sort_def Let_def)

text \<open>
  Claim C8, amended. No trade is set aside for its timestamps and no view fails on
  them: the trades replayed by the curve are all the trades whose status is not OPEN,
  each with its point, and a trade whose status is not OPEN and whose exit timestamp is
  a non-empty string that is not a date is accumulated in the entry \<^verbatim>\<open>Invalid Date\<close>
  of the daily series: the series has an entry of this date, whose value is the sum of
  the returns of the trades whose day is \<^verbatim>\<open>Invalid Date\<close>, this trade among them.
\<close>

theorem malformed_timestamp_kept:
  "mset (closedTrades getTime trades) = mset (filter (\<lambda>t. trade_status t \<noteq> ''OPEN'') trades)
   \<and> (trades \<noteq> [] \<longrightarrow>
        length (equityCurve getTime trades (Some p)) = Suc (length (closedTrades getTime trades))
        \<and> map point_symbol (tl (equityCurve getTime trades (Some p)))
          = map (\<lambda>t. Some (symbol t)) (closedTrades getTime trades))
   \<and> (\<forall>t\<in>set trades. \<forall>s.
        trade_status t \<noteq> ''OPEN'' \<and> exit_timestamp t = Some s \<and> s \<noteq> [] \<and> getTime s = None \<longrightarrow>
        (let bad = filter (\<lambda>u. toDateString getTime dayOf (the (exit_timestamp u)) = ''Invalid Date'')
                     (filter (\<lambda>u. trade_status u \<noteq> ''OPEN'' \<and> exit_timestamp u \<noteq> None
                                   \<and> exit_timestamp u \<noteq> Some []) trades)
         in t \<in> set bad
            \<and> (\<exists>e\<in>set (dailyPnL getTime dayOf trades).
                  date e = ''Invalid Date''
                  \<and> daily_pnl e
                      = sum_list (map (\<lambda>u. case actual_return_pct u of None \<Rightarrow> 0 | Some r \<Rightarrow> r) bad))))"
proof (intro conjI impI ballI allI)
  show "mset (closedTrades getTime trades) = mset (filter (\<lambda>t. trade_status t \<noteq> ''OPEN'') trades)"
    by (rule closedTrades_permutation)
next
  assume "trades \<noteq> []"
  then show "length (equityCurve getTime trades (Some p)) = Suc (length (closedTrades getTime trades))"
    by (rule equityCurve_shape(1))
next
  assume "trades \<noteq> []"
  then show "map point_symbol (tl (equityCurve getTime trades (Some p)))
          = map (\<lambda>t. Some (symbol t)) (closedTrades getTime trades)"
    by (simp add: equityCurve_Some replay_symbols)
next
  fix t s
  assume t: "t \<in> set trades"
    and bad: "trade_status t \<noteq> ''OPEN'' \<and> exit_timestamp t = Some s \<and> s \<noteq> [] \<and> getTime s = None"
  define day where "day = (\<lambda>u::TradeEntry. toDateString getTime dayOf (the (exit_timestamp u)))"
  from bad have he: "hasExit t" and dt: "day t = ''Invalid Date''"
    by (simp_all add: hasExit_def notOpen_def truthy_str_def toDateString_def day_def)
  with t have mem: "t \<in> set (filter (\<lambda>u. day u = ''Invalid Date'') (filter hasExit trades))"
    by simp
  from t he dt have "''Invalid Date'' \<in> day ` set (filter hasExit trades)"
    by force
  then have "''Invalid Date'' \<in> set (map date (dailyPnL getTime dayOf trades))"
    by (simp only: dailyPnL_facts(1) day_def)
  then obtain e where e: "e \<in> set (dailyPnL getTime dayOf trades)" "date e = ''Invalid Date''"
    by auto
  have val: "daily_pnl e = sum_list (map (\<lambda>u. or_zero (actual_return_pct u))
                 (filter (\<lambda>u. day u = ''Invalid Date'') (filter hasExit trades)))"
    using dailyPnL_facts(3) [OF e(1)] e(2) by (simp add: day_def)
  show "let bad = filter (\<lambda>u. toDateString getTime dayOf (the (exit_timestamp u)) = ''Invalid Date'')
                     (filter (\<lambda>u. trade_status u \<noteq> ''OPEN'' \<and> exit_timestamp u \<noteq> None
                                   \<and> exit_timestamp u \<noteq> Some []) trades)
         in t \<in> set bad
            \<and> (\<exists>e\<in>set (dailyPnL getTime dayOf trades).
                  date e = ''Invalid Date''
                  \<and> daily_pnl e
                      = sum_list (map (\<lambda>u. case actual_return_pct u of None \<Rightarrow> 0 | Some r \<Rightarrow> r) bad))"
    unfolding Let_def filter_hasExit [symmetric] or_zero_case [symmetric]
    using mem e val unfolding day_def by blast
qed

theorem malformed_timestamp_kept_witness:
  "[sample_win, sample_bad] \<noteq> []
   \<and> sample_bad \<in> set [sample_win, sample_bad]
   \<and> trade_status sample_bad \<noteq> ''OPEN'' \<and> exit_timestamp sample_bad = Some ''not a date''
   \<and> ''not a date'' \<noteq> [] \<and> sample_getTime ''not a date'' = None
   \<and> length (closedTrades sample_getTime [sample_win, sample_bad]) = 2
   \<and> dailyPnL sample_getTime sample_dayOf [sample_win, sample_bad]
       = [\<lparr>date = ''Fri Mar 01 2024'', daily_pnl = 10\<rparr>,
          \<lparr>date = ''Invalid Date'', daily_pnl = 10\<rparr>]"
proof -
  note kept = malformed_timestamp_kept [of sample_getTime "[sample_win, sample_bad]" sample_perf sample_dayOf]
  have bad: "trade_status sample_bad \<noteq> ''OPEN''" "exit_timestamp sample_bad = Some ''not a date''"
    "sample_getTime ''not a date'' = None"
    by (simp_all add: sample_bad_def sample_win_def sample_open_def sample_getTime_def)
  have "size (mset (closedTrades sample_getTime [sample_win, sample_bad])) = 2"
    using kept bad by (simp add: sample_win_def sample_open_def)
  then have "length (closedTrades sample_getTime [sample_win, sample_bad]) = 2"
    by simp
  moreover have "dailyPnL sample_getTime sample_dayOf [sample_win, sample_bad]
       = [\<lparr>date = ''Fri Mar 01 2024'', daily_pnl = 10\<rparr>,
          \<lparr>date = ''Invalid Date'', daily_pnl = 10\<rparr>]"
    by (simp add: dailyPnL_def dailyRows_def daily_step_def object_entries_def array_index_def
      digit_of_def hasExit_def notOpen_def truthy_str_def truthy_num_def or_zero_def
      toDateString_def sample_win_def sample_bad_def sample_open_def
      sample_getTime_def sample_dayOf_def time_diff_def sort_eval Let_def)
  ultimately show ?thesis using bad by simp
qed

subsection \<open>Frame of the views\<close>

lemma unchanged_refl: "unchanged s s"
  by (simp add: unchanged_def)

lemma unchanged_trans: "unchanged s s1 \<Longrightarrow> unchanged s1 s2 \<Longrightarrow> unchanged s s2"
  unfolding unchanged_def
  by (metis length_take min.cobounded1 min_def take_take)

lemma unchanged_array_filter: "unchanged s (snd (array_filter P a s))"
  by (simp add: unchanged_def array_filter_def)

lemma fst_array_filter: "fst (array_filter P a s) = length (arrays s)"
  by (simp add: array_filter_def)

lemma unchanged_array_sort:
  "unchanged s s1 \<Longrightarrow> length (arrays s) \<le> c \<Longrightarrow> unchanged s (snd (array_sort comparefn c s1))"
  by (simp add: unchanged_def array_sort_def)

text \<open>Sorting addresses by the objects they hold is sorting the objects.\<close>

lemma count_run_map:
  "(\<And>x y. sort_compare c' x y = sort_compare c (f x) (f y)) \<Longrightarrow>
   count_run c' d prev rest = count_run c d (f prev) (map f rest)"
  by (induction rest arbitrary: prev) auto

lemma count_and_make_run_map:
  assumes "\<And>x y. sort_compare c' x y = sort_compare c (f x) (f y)"
  shows "fst (count_and_make_run c' xs) = fst (count_and_make_run c (map f xs))"
    and "map f (snd (count_and_make_run c' xs)) = snd (count_and_make_run c (map f xs))"
  using assms count_run_map [of c' c f, OF assms]
  by (auto simp: count_and_make_run_def Let_def rev_map take_map drop_map split: list.split)

lemma bsearch_map:
  "(\<And>x y. sort_compare c' x y = sort_compare c (f x) (f y)) \<Longrightarrow> right \<le> length ws \<Longrightarrow>
   bsearch c' p ws left right = bsearch c (f p) (map f ws) left right"
proof (induction c' p ws left right rule: bsearch.induct)
  case (1 c' p ws left right)
  show ?case
  proof (cases "left < right")
    case False
    then show ?thesis by (simp add: bsearch.simps)
  next
    case True
    define mid where "mid = left + (right - left) div 2"
    have m: "mid < right" "mid < length ws" using True "1.prems"(2) by (simp_all add: mid_def)
    have cmp: "sort_compare c' p (ws ! mid) = sort_compare c (f p) (map f ws ! mid)"
      using "1.prems"(1) m by simp
    show ?thesis
    proof (cases "sort_compare c' p (ws ! mid) < 0")
      case lt: True
      have "bsearch c' p ws left mid = bsearch c (f p) (map f ws) left mid"
        using "1.IH"(1) [OF True mid_def lt "1.prems"(1)] m by simp
      moreover have "bsearch c' p ws left right = bsearch c' p ws left mid"
        using True lt by (subst bsearch.simps) (simp add: mid_def Let_def)
      moreover have "bsearch c (f p) (map f ws) left right = bsearch c (f p) (map f ws) left mid"
        using True lt cmp by (subst bsearch.simps) (simp add: mid_def Let_def)
      ultimately show ?thesis by simp
    next
      case ge: False
      have "bsearch c' p ws (mid + 1) right = bsearch c (f p) (map f ws) (mid + 1) right"
        using "1.IH"(2) [OF True mid_def ge "1.prems"(1)] "1.prems"(2) by simp
      moreover have "bsearch c' p ws left right = bsearch c' p ws (mid + 1) right"
        using True ge by (subst bsearch.simps) (simp add: mid_def Let_def)
      moreover have "bsearch c (f p) (map f ws) left right = bsearch c (f p) (map f ws) (mid + 1) right"
        using True ge cmp by (subst bsearch.simps) (simp add: mid_def Let_def)
      ultimately show ?thesis by simp
    qed
  qed
qed

lemma binary_insert_map:
  assumes "\<And>x y. sort_compare c' x y = sort_compare c (f x) (f y)" and "start < length ws"
  shows "map f (binary_insert c' ws start) = binary_insert c (map f ws) start"
proof -
  have "bsearch c' (ws ! start) ws 0 start = bsearch c (f (ws ! start)) (map f ws) 0 start"
    using assms by (intro bsearch_map) simp_all
  then show ?thesis
    using assms(2) by (simp add: binary_insert_def Let_def take_map drop_map)
qed

lemma binary_insertion_sort_map:
  "(\<And>x y. sort_compare c' x y = sort_compare c (f x) (f y)) \<Longrightarrow> high \<le> length ws \<Longrightarrow>
   map f (binary_insertion_sort c' start high ws) = binary_insertion_sort c start high (map f ws)"
proof (induction c' start high ws rule: binary_insertion_sort.induct)
  case (1 c' start high ws)
  show ?case
  proof (cases "start < high")
    case False
    then show ?thesis by (simp add: binary_insertion_sort.simps)
  next
    case True
    then have lt: "start < length ws" using "1.prems"(2) by simp
    have "map f (binary_insertion_sort c' (start + 1) high (binary_insert c' ws start))
          = binary_insertion_sort c (start + 1) high (map f (binary_insert c' ws start))"
      using "1.IH" [OF True "1.prems"(1)] "1.prems"(2) lt by (simp add: length_binary_insert)
    also have "map f (binary_insert c' ws start) = binary_insert c (map f ws) start"
      using "1.prems"(1) lt by (rule binary_insert_map)
    finally show ?thesis
      using True
      by (subst binary_insertion_sort.simps, subst (2) binary_insertion_sort.simps) simp
  qed
qed

lemma js_sort_map: "map f (js_sort (\<lambda>x y. c (f x) (f y)) xs) = js_sort c (map f xs)"
proof -
  define c' where "c' = (\<lambda>x y. c (f x) (f y))"
  have cmp: "sort_compare c' x y = sort_compare c (f x) (f y)" for x y
    by (simp add: c'_def sort_compare_def)
  have "map f (js_sort c' xs) = js_sort c (map f xs)"
    using count_and_make_run_map [of c' c f xs, OF cmp] count_and_make_run_mset(2,3) [of c' xs]
      binary_insertion_sort_map [of c' c f "length xs" "snd (count_and_make_run c' xs)", OF cmp]
    by (simp add: js_sort_def case_prod_beta)
  then show ?thesis by (simp add: c'_def)
qed

lemma elements_array_filter:
  "elements (snd (array_filter P a s)) (fst (array_filter P a s)) = filter P (elements s a)"
  by (simp add: elements_def array_filter_def filter_map comp_def)

lemma equityCurve_store_unchanged: "unchanged s (snd (equityCurve_store getTime a p s))"
proof (cases "length (arrays s ! a) = 0 \<or> p = None")
  case True
  then show ?thesis by (simp add: equityCurve_store_def unchanged_refl)
next
  case False
  define s1 where "s1 = snd (array_filter notOpen a s)"
  have "unchanged s s1"
    by (simp add: s1_def unchanged_array_filter)
  then have "unchanged s (snd (array_sort (\<lambda>a b. time_diff getTime (timestamp a) (timestamp b))
                 (length (arrays s)) s1))"
    by (rule unchanged_array_sort) simp
  with False show ?thesis
    by (simp add: equityCurve_store_def Let_def case_prod_beta fst_array_filter s1_def
        array_sort_def unchanged_refl)
qed

text \<open>
  The views on a store compute what the views on lists compute from the elements of the
  caller's array and the snapshot.
\<close>

lemma equityCurve_store_result:
  "fst (equityCurve_store getTime a p s)
   = equityCurve getTime (elements s a) (map_option (\<lambda>r. snapshots s ! r) p)"
proof (cases "length (arrays s ! a) = 0 \<or> p = None")
  case True
  then show ?thesis by (auto simp: equityCurve_store_def equityCurve_def elements_def)
next
  case False
  then obtain r where p: "p = Some r" by auto
  have ne: "elements s a \<noteq> []"
    using False by (simp add: elements_def)
  have "elements (snd (array_sort (\<lambda>a b. time_diff getTime (timestamp a) (timestamp b))
            (fst (array_filter notOpen a s)) (snd (array_filter notOpen a s))))
          (fst (array_filter notOpen a s))
        = closedTrades getTime (elements s a)"
    using js_sort_map [where f = "(!) (objects s)"
        and c = "\<lambda>a b. time_diff getTime (timestamp a) (timestamp b)"]
    by (simp add: elements_def array_sort_def array_filter_def closedTrades_def
        filter_map comp_def)
  then show ?thesis
    using False ne by (simp add: equityCurve_store_def equityCurve_Some p Let_def case_prod_beta
        array_sort_def)
qed

lemma symbolPerformance_store_result:
  "fst (symbolPerformance_store a s) = symbolPerformance (elements s a)"
  by (simp add: symbolPerformance_store_def symbolPerformance_def case_prod_beta
      elements_array_filter)

lemma dailyPnL_store_result:
  "fst (dailyPnL_store getTime dayOf a s) = dailyPnL getTime dayOf (elements s a)"
  by (simp add: dailyPnL_store_def dailyPnL_def case_prod_beta elements_array_filter)

lemma roeDistribution_store_result:
  "fst (roeDistribution_store a s) = roeDistribution (elements s a)"
  by (simp add: roeDistribution_store_def roeDistribution_def case_prod_beta Let_def
      array_filter_def elements_def filter_map comp_def nth_append)

lemma symbolPerformance_store_unchanged: "unchanged s (snd (symbolPerformance_store a s))"
  by (simp add: symbolPerformance_store_def case_prod_beta unchanged_array_filter)

lemma dailyPnL_store_unchanged: "unchanged s (snd (dailyPnL_store getTime dayOf a s))"
  by (simp add: dailyPnL_store_def case_prod_beta unchanged_array_filter)

lemma roeDistribution_store_unchanged: "unchanged s (snd (roeDistribution_store a s))"
  unfolding roeDistribution_store_def case_prod_beta Let_def snd_conv
  by (blast intro: unchanged_trans unchanged_array_filter)

text \<open>
  Claim C9. No view changes what it is given: after a call of any of the four views
  every trade object, the performance snapshot and every array that existed before the
  call, the caller's trades array among them, are as before (same length, same order,
  same records). The sort of the equity curve reorders the array that the filter has
  just created.
\<close>

theorem views_leave_inputs_unchanged:
  "unchanged s (snd (equityCurve_store getTime trades performance s))
   \<and> unchanged s (snd (symbolPerformance_store trades s))
   \<and> unchanged s (snd (dailyPnL_store getTime dayOf trades s))
   \<and> unchanged s (snd (roeDistribution_store trades s))
   \<and> (trades < length (arrays s) \<longrightarrow>
        arrays (snd (equityCurve_store getTime trades performance s)) ! trades = arrays s ! trades
        \<and> elements (snd (equityCurve_store getTime trades performance s)) trades = elements s trades)"
proof (intro conjI impI)
  assume a: "trades < length (arrays s)"
  have u: "unchanged s (snd (equityCurve_store getTime trades performance s))"
    by (rule equityCurve_store_unchanged)
  then show same: "arrays (snd (equityCurve_store getTime trades performance s)) ! trades = arrays s ! trades"
    using a unfolding unchanged_def by (metis nth_take)
  with u show "elements (snd (equityCurve_store getTime trades performance s)) trades = elements s trades"
    by (simp add: elements_def unchanged_def)
qed (rule equityCurve_store_unchanged symbolPerformance_store_unchanged
      dailyPnL_store_unchanged roeDistribution_store_unchanged)+

theorem views_leave_inputs_unchanged_witness:
  "0 < length (arrays sample_store)
   \<and> arrays (snd (equityCurve_store sample_getTime 0 (Some 0) sample_store)) = [[0, 1, 2], [2, 0]]
   \<and> objects (snd (equityCurve_store sample_getTime 0 (Some 0) sample_store)) = objects sample_store
   \<and> snapshots (snd (equityCurve_store sample_getTime 0 (Some 0) sample_store)) = snapshots sample_store"
  using views_leave_inputs_unchanged [of sample_store sample_getTime 0 "Some 0" sample_dayOf]
  by (simp add: equityCurve_store_def array_filter_def array_sort_def sample_store_def
      notOpen_def sample_win_def sample_open_def sample_loss_def sample_getTime_def
      time_diff_def sort_eval Let_def unchanged_def)

subsection \<open>roeDistribution\<close>

lemma filter_status_notOpen:
  "s \<noteq> ''OPEN'' \<Longrightarrow>
   filter (\<lambda>t. trade_status t = s) (filter notOpen trades) = filter (\<lambda>t. trade_status t = s) trades"
  by (induction trades) (auto simp: notOpen_def)

text \<open>
  Claim C6. For every trades list, the Wins count of the distribution is the number of
  trades whose status is CLOSED_WIN and the Losses count the number whose status is
  CLOSED_LOSS; the two counts add up to the number of trades whose status is one of the
  two, so a trade with any other status is counted in neither bucket.
\<close>

theorem roeDistribution_counts:
  "map value' (roeDistribution trades) =
     [length (filter (\<lambda>t. trade_status t = ''CLOSED_WIN'') trades),
      length (filter (\<lambda>t. trade_status t = ''CLOSED_LOSS'') trades)]
   \<and> sum_list (map value' (roeDistribution trades)) =
     length (filter (\<lambda>t. trade_status t = ''CLOSED_WIN'' \<or> trade_status t = ''CLOSED_LOSS'') trades)"
proof -
  have w: "filter (\<lambda>t. trade_status t = ''CLOSED_WIN'') (filter notOpen trades)
           = filter (\<lambda>t. trade_status t = ''CLOSED_WIN'') trades"
    by (rule filter_status_notOpen) simp
  have l: "filter (\<lambda>t. trade_status t = ''CLOSED_LOSS'') (filter notOpen trades)
           = filter (\<lambda>t. trade_status t = ''CLOSED_LOSS'') trades"
    by (rule filter_status_notOpen) simp
  have split: "length (filter (\<lambda>t. trade_status t = ''CLOSED_WIN'' \<or> trade_status t = ''CLOSED_LOSS'') trades)
          = length (filter (\<lambda>t. trade_status t = ''CLOSED_WIN'') trades)
            + length (filter (\<lambda>t. trade_status t = ''CLOSED_LOSS'') trades)"
    by (induction trades) auto
  show ?thesis
    unfolding roeDistribution_def Let_def w l split by simp
qed

text \<open>
  Claim C10. For every trades list the distribution has exactly two entries, named Wins
  and Losses in this order; for the empty list both counts are 0.
\<close>

theorem roeDistribution_shape:
  "map name (roeDistribution trades) = [''Wins'', ''Losses'']
   \<and> length (roeDistribution trades) = 2
   \<and> map value' (roeDistribution []) = [0, 0]"
  by (simp add: roeDistribution_def Let_def)

end
